theory Spec2Isabelle
  imports Complex_Main
begin

section \<open>Strings\<close>

text \<open>
  JavaScript strings are modelled as \<^typ>\<open>string\<close>. Field names of both conventions are
  ASCII; the character classes below are the ranges the source's regular expressions name
  (\<^verbatim>\<open>[A-Z]\<close>, \<^verbatim>\<open>[a-z]\<close>, \<^verbatim>\<open>[a-z0-9]\<close>), and \<^verbatim>\<open>toLowerCase\<close> /
  \<^verbatim>\<open>toUpperCase\<close> act on the ASCII letters and leave every other character alone.
\<close>

definition upper_letters :: string where
  "upper_letters = ''ABCDEFGHIJKLMNOPQRSTUVWXYZ''"

definition lower_letters :: string where
  "lower_letters = ''abcdefghijklmnopqrstuvwxyz''"

definition digit_chars :: string where
  "digit_chars = ''0123456789''"

definition is_upper :: "char \<Rightarrow> bool" where
  "is_upper c \<longleftrightarrow> c \<in> set upper_letters"

definition is_lower :: "char \<Rightarrow> bool" where
  "is_lower c \<longleftrightarrow> c \<in> set lower_letters"

definition is_digit :: "char \<Rightarrow> bool" where
  "is_digit c \<longleftrightarrow> c \<in> set digit_chars"

definition lower_char :: "char \<Rightarrow> char" where
  "lower_char c = (case map_of (zip upper_letters lower_letters) c of Some d \<Rightarrow> d | None \<Rightarrow> c)"

definition upper_char :: "char \<Rightarrow> char" where
  "upper_char c = (case map_of (zip lower_letters upper_letters) c of Some d \<Rightarrow> d | None \<Rightarrow> c)"

definition toLowerCase :: "string \<Rightarrow> string" where
  "toLowerCase s = map lower_char s"

definition toUpperCase :: "string \<Rightarrow> string" where
  "toUpperCase s = map upper_char s"

text \<open>\<^verbatim>\<open>s.startsWith(p)\<close>\<close>

fun startsWith :: "string \<Rightarrow> string \<Rightarrow> bool" where
  "startsWith s [] = True"
| "startsWith [] (p # ps) = False"
| "startsWith (c # cs) (p # ps) = (c = p \<and> startsWith cs ps)"

definition substring_from :: "string \<Rightarrow> nat \<Rightarrow> string" where
  "substring_from s n = drop n s"


section \<open>The field-name transformer\<close>

subsection \<open>\<^verbatim>\<open>camelToKebab\<close>\<close>

text \<open>
  The first replacement of \<^verbatim>\<open>camelToKebab\<close> is
  \<^verbatim>\<open>.replace(/([A-Z]+)([A-Z][a-z])/g, '$1-$2')\<close>.
  \<open>match_acronym s\<close> is the regular expression tried at the start of \<open>s\<close>: the greedy group
  \<^verbatim>\<open>([A-Z]+)\<close> first takes the whole run of capitals and then gives characters back one at
  a time until \<^verbatim>\<open>([A-Z][a-z])\<close> matches behind it.  The result is the length of group 1.
\<close>

definition match_acronym :: "string \<Rightarrow> nat option" where
  "match_acronym s =
     List.find (\<lambda>k. k + 1 < length s \<and> is_upper (s ! k) \<and> is_lower (s ! (k + 1)))
       (rev [1 ..< Suc (length (takeWhile is_upper s))])"

text \<open>
  A global replace scans from the left; after a match it goes on behind the matched text,
  otherwise it copies one character and tries again at the next position.
\<close>

function replace_acronym :: "string \<Rightarrow> string" where
  "replace_acronym [] = []"
| "replace_acronym (c # cs) =
     (case match_acronym (c # cs) of
        None \<Rightarrow> c # replace_acronym cs
      | Some k \<Rightarrow> take k (c # cs) @ ''-'' @ take 2 (drop k (c # cs))
                  @ replace_acronym (drop (k + 2) (c # cs)))"
  by pat_completeness auto
termination
  by (relation "measure length") auto

text \<open>The second replacement: \<^verbatim>\<open>.replace(/([a-z0-9])([A-Z])/g, '$1-$2')\<close>.\<close>

fun replace_boundary :: "string \<Rightarrow> string" where
  "replace_boundary (c # d # cs) =
     (if (is_lower c \<or> is_digit c) \<and> is_upper d
      then c # CHR ''-'' # d # replace_boundary cs
      else c # replace_boundary (d # cs))"
| "replace_boundary cs = cs"

definition camelToKebab :: "string \<Rightarrow> string" where
  "camelToKebab str = toLowerCase (replace_boundary (replace_acronym str))"

subsection \<open>\<^verbatim>\<open>kebabToCamel\<close>, \<^verbatim>\<open>kebabToPascal\<close>\<close>

text \<open>\<^verbatim>\<open>.replace(/-([a-z])/g, (_, letter) => letter.toUpperCase())\<close>\<close>

fun replace_dash :: "string \<Rightarrow> string" where
  "replace_dash (c # d # cs) =
     (if c = CHR ''-'' \<and> is_lower d
      then upper_char d # replace_dash cs
      else c # replace_dash (d # cs))"
| "replace_dash cs = cs"

definition kebabToCamel :: "string \<Rightarrow> string" where
  "kebabToCamel str = replace_dash (toLowerCase str)"

text \<open>\<^verbatim>\<open>camelCase.charAt(0).toUpperCase() + camelCase.slice(1)\<close>\<close>

definition kebabToPascal :: "string \<Rightarrow> string" where
  "kebabToPascal str =
     (let camelCase = kebabToCamel str
      in toUpperCase (take 1 camelCase) @ drop 1 camelCase)"

subsection \<open>The table of irregular names\<close>

definition specialCases :: "(string \<times> string) list" where
  "specialCases =
    [(''formatted-id'', ''FormattedID''),
     (''object-id'', ''ObjectID''),
     (''ref-object-uuid'', ''refObjectUUID''),
     (''ref-object-name'', ''refObjectName''),
     (''ref'', ''ref''),
     (''type'', ''type''),
     (''plan-estimate'', ''PlanEstimate''),
     (''schedule-state'', ''ScheduleState''),
     (''last-update-date'', ''LastUpdateDate''),
     (''creation-date'', ''CreationDate''),
     (''found-in-build'', ''FoundInBuild''),
     (''fixed-in-build'', ''FixedInBuild''),
     (''work-product'', ''WorkProduct''),
     (''to-do'', ''ToDo''),
     (''todo'', ''ToDo''),
     (''api-integration'', ''APIIntegration''),
     (''apiintegration'', ''APIIntegration''),
     (''custom-priority'', ''CustomPriority''),
     (''business-value'', ''BusinessValue''),
     (''my-custom-field'', ''MyCustomField'')]"

text \<open>
  \<^verbatim>\<open>specialCases[field]\<close> reads a property of an object literal, so a name that the table
  does not have is still looked up on \<^verbatim>\<open>Object.prototype\<close>.  Its twelve members are all
  truthy, and the caller uses what comes back as a string (in a template literal or as a
  property key): a built-in function reads \<^verbatim>\<open>function name() { [native code] }\<close>, the
  prototype object itself \<^verbatim>\<open>[object Object]\<close>.
\<close>

definition object_prototype_functions :: "string list" where
  "object_prototype_functions =
    [''__defineGetter__'', ''__defineSetter__'', ''hasOwnProperty'', ''__lookupGetter__'',
     ''__lookupSetter__'', ''isPrototypeOf'', ''propertyIsEnumerable'', ''toString'',
     ''valueOf'', ''toLocaleString'']"

definition inherited_text :: "string \<Rightarrow> string option" where
  "inherited_text field =
     (if field = ''constructor'' then Some ''function Object() { [native code] }''
      else if field = ''__proto__'' then Some ''[object Object]''
      else if field \<in> set object_prototype_functions
      then Some (''function '' @ field @ ''() { [native code] }'')
      else None)"

definition kebabToRallySpecialCase :: "string \<Rightarrow> string" where
  "kebabToRallySpecialCase field =
     (case map_of specialCases field of
        Some specialCase \<Rightarrow> specialCase
      | None \<Rightarrow>
         (case inherited_text field of
            Some text \<Rightarrow> text
          | None \<Rightarrow> kebabToPascal field))"

subsection \<open>Field names in both directions\<close>

definition rallyFieldToMcp :: "string \<Rightarrow> string" where
  "rallyFieldToMcp field =
     (if startsWith field ''_'' then ''metadata-'' @ camelToKebab (substring_from field 1)
      else if startsWith field ''c_'' then ''custom-'' @ camelToKebab (substring_from field 2)
      else camelToKebab field)"

definition mcpFieldToRally :: "string \<Rightarrow> string" where
  "mcpFieldToRally field =
     (if startsWith field ''metadata-''
      then ''_'' @ kebabToRallySpecialCase (substring_from field 9)
      else if startsWith field ''custom-''
      then ''c_'' @ kebabToRallySpecialCase (substring_from field 7)
      else kebabToRallySpecialCase field)"


section \<open>Records\<close>

text \<open>
  A Record is a JavaScript value built from primitives, arrays and objects.  Numbers are
  only ever passed through, so an integer payload stands for them.  An object is the list
  of its own properties in the order in which they were created; the keys of a well-formed
  object are distinct.

  An object is plain (\<open>JObj\<close>) when \<^verbatim>\<open>Object.prototype\<close> is on its prototype chain, as it is
  for an object literal, and bare (\<open>JBare\<close>) when it is not, as for one that
  \<^verbatim>\<open>Object.create(null)\<close> made.  The difference shows in one place: a plain object inherits
  the accessor \<^verbatim>\<open>__proto__\<close>, a bare one does not.  What else an object inherits is not
  part of the Record.
\<close>

datatype json =
    JUndefined
  | JNull
  | JBool bool
  | JNum int
  | JStr string
  | JArr "json list"
  | JObj "(string \<times> json) list"
  | JBare "(string \<times> json) list"

text \<open>\<^verbatim>\<open>typeof value === 'object' && value !== null\<close>\<close>

fun is_object :: "json \<Rightarrow> bool" where
  "is_object (JArr _) = True"
| "is_object (JObj _) = True"
| "is_object (JBare _) = True"
| "is_object _ = False"

text \<open>
  \<^verbatim>\<open>Object.entries\<close> lists the properties whose name is an array index (a canonical decimal
  numeral below \<open>2\<^sup>3\<^sup>2 - 1\<close>) first, in ascending numeric order, and then the others in
  creation order.
\<close>

definition digit_value :: "char \<Rightarrow> int" where
  "digit_value c = (case map_of (zip digit_chars [0, 1, 2, 3, 4, 5, 6, 7, 8, 9]) c of
                      Some d \<Rightarrow> d | None \<Rightarrow> 0)"

definition digits_value :: "string \<Rightarrow> int" where
  "digits_value s = foldl (\<lambda>n c. 10 * n + digit_value c) 0 s"

definition array_index :: "string \<Rightarrow> int option" where
  "array_index s =
     (if s = [] then None
      else if \<not> list_all is_digit s then None
      else if s \<noteq> ''0'' \<and> hd s = CHR ''0'' then None
      else if digits_value s < 4294967295 then Some (digits_value s)
      else None)"

definition object_entries :: "(string \<times> 'a) list \<Rightarrow> (string \<times> 'a) list" where
  "object_entries ps =
     sort_key (\<lambda>p. case array_index (fst p) of Some i \<Rightarrow> i | None \<Rightarrow> 0)
       (filter (\<lambda>p. array_index (fst p) \<noteq> None) ps)
     @ filter (\<lambda>p. array_index (fst p) = None) ps"

text \<open>
  \<^verbatim>\<open>transformed[key] = value\<close>: a key that is already there keeps its place and gets the
  new value, a new key goes to the end.
\<close>

fun set_prop :: "(string \<times> 'a) list \<Rightarrow> string \<Rightarrow> 'a \<Rightarrow> (string \<times> 'a) list" where
  "set_prop [] key v = [(key, v)]"
| "set_prop (p # ps) key v = (if fst p = key then (key, v) # ps else p # set_prop ps key v)"

text \<open>
  \<^verbatim>\<open>transformed[key] = value\<close>, for the object \<^verbatim>\<open>transformed\<close> that the loop fills.  One key is
  special.  On a plain object \<^verbatim>\<open>transformed['__proto__'] = value\<close> runs the setter that
  \<^verbatim>\<open>Object.prototype\<close> has for that name, and creates no property: the setter makes the
  value the prototype of \<^verbatim>\<open>transformed\<close> when it is \<^verbatim>\<open>null\<close> or an object, and does
  nothing when it is any other primitive.  With \<^verbatim>\<open>null\<close> or a bare object for a prototype
  \<^verbatim>\<open>transformed\<close> is bare from then on; with an array or a plain object it stays plain.
  A bare object has no such setter, and the assignment creates the property
  \<^verbatim>\<open>__proto__\<close> like any other.
\<close>

fun assign_prop :: "json \<Rightarrow> string \<Rightarrow> json \<Rightarrow> json" where
  "assign_prop (JObj obj) key v =
     (if key = ''__proto__''
      then (case v of JNull \<Rightarrow> JBare obj | JBare _ \<Rightarrow> JBare obj | _ \<Rightarrow> JObj obj)
      else JObj (set_prop obj key v))"
| "assign_prop (JBare obj) key v = JBare (set_prop obj key v)"
| "assign_prop transformed key v = transformed"

lemma set_object_entries [simp]: "set (object_entries ps) = set ps"
  by (auto simp: object_entries_def)

lemma size_object_member [termination_simp]:
  "(k, v) \<in> set ps \<Longrightarrow> size v < Suc (size_list (size_prod (\<lambda>_. 0) size) ps)"
  by (induction ps) auto

fun rallyToMcp :: "json \<Rightarrow> json" where
  "rallyToMcp (JArr items) = JArr (map rallyToMcp items)"
| "rallyToMcp (JObj obj) =
     foldl (\<lambda>transformed (key, v).
              assign_prop transformed (rallyFieldToMcp key)
                (if is_object v then rallyToMcp v else v))
           (JObj []) (object_entries obj)"
| "rallyToMcp (JBare obj) =
     foldl (\<lambda>transformed (key, v).
              assign_prop transformed (rallyFieldToMcp key)
                (if is_object v then rallyToMcp v else v))
           (JObj []) (object_entries obj)"
| "rallyToMcp data = data"

fun mcpToRally :: "json \<Rightarrow> json" where
  "mcpToRally (JArr items) = JArr (map mcpToRally items)"
| "mcpToRally (JObj obj) =
     foldl (\<lambda>transformed (key, v).
              assign_prop transformed (mcpFieldToRally key)
                (if is_object v then mcpToRally v else v))
           (JObj []) (object_entries obj)"
| "mcpToRally (JBare obj) =
     foldl (\<lambda>transformed (key, v).
              assign_prop transformed (mcpFieldToRally key)
                (if is_object v then mcpToRally v else v))
           (JObj []) (object_entries obj)"
| "mcpToRally data = data"


section \<open>The error taxonomy (\<^verbatim>\<open>ErrorTypes.ts\<close>)\<close>

datatype MCPErrorType =
    VALIDATION_ERROR | SCHEMA_VALIDATION_ERROR | FIELD_VALIDATION_ERROR
  | AUTHENTICATION_ERROR | API_KEY_INVALID | API_KEY_EXPIRED | PERMISSION_ERROR
  | UNAUTHORIZED_OPERATION
  | RALLY_API_ERROR | RALLY_SERVER_ERROR | RALLY_SERVICE_UNAVAILABLE | RALLY_RATE_LIMIT
  | RALLY_WORKSPACE_ERROR | RALLY_PROJECT_ERROR
  | NOT_FOUND_ERROR | RESOURCE_LOCKED | RESOURCE_CONFLICT | RESOURCE_DELETED
  | NETWORK_ERROR | CONNECTION_TIMEOUT | DNS_RESOLUTION_ERROR | SSL_CERTIFICATE_ERROR
  | PROXY_ERROR
  | SERVICE_DEGRADED | SERVICE_OVERLOAD | CIRCUIT_BREAKER_OPEN | RESOURCE_EXHAUSTION
  | CONFIGURATION_ERROR
  | MCP_PROTOCOL_ERROR | TRANSPORT_ERROR | SERIALIZATION_ERROR
  | DATA_TRANSFORMATION_ERROR | FIELD_MAPPING_ERROR | DATA_CORRUPTION_ERROR
  | INTERNAL_ERROR | UNEXPECTED_ERROR

datatype ErrorSeverity = LOW | MEDIUM | HIGH | CRITICAL

datatype RecoveryStrategy =
    RETRY | RETRY_WITH_BACKOFF | CIRCUIT_BREAKER | FALLBACK | GRACEFUL_DEGRADATION
  | FAIL_FAST | USER_INTERVENTION

record RecoveryOptions =
  strategy :: RecoveryStrategy
  maxRetries :: "nat option"
  retryDelayMs :: "nat option"
  backoffMultiplier :: "rat option"
  circuitBreakerThreshold :: "nat option"
  userMessage :: "string option"

text \<open>
  The context and the record that the handler returns.  Left out are the fields that no
  field kept here depends on: the context's optional \<^verbatim>\<open>userId\<close>, \<^verbatim>\<open>sessionId\<close>,
  \<^verbatim>\<open>requestId\<close>, \<^verbatim>\<open>retryAttempt\<close> and \<^verbatim>\<open>previousErrors\<close>, which are passed through;
  the record's \<^verbatim>\<open>rallyErrorMessage\<close>, an excerpt of the response body that
  \<^verbatim>\<open>extractRallyErrorMessage\<close> takes inside a \<^verbatim>\<open>try\<close>; the dates and the list of
  operations in \<^verbatim>\<open>metrics\<close>; and \<^verbatim>\<open>causedBy\<close>, \<^verbatim>\<open>resolvedBy\<close> and
  \<^verbatim>\<open>resolutionTime\<close>, which \<^verbatim>\<open>handleError\<close> never sets.
\<close>

record ErrorContext =
  correlationId :: string
  operation :: string
  endpoint :: json
  timestamp :: int
  environment :: string
  version :: string
  component :: string

record MCPError =
  type :: MCPErrorType
  severity :: ErrorSeverity
  message :: string
  details :: "(string \<times> json) list"
  errorContext :: ErrorContext
  recovery :: RecoveryOptions
  rallyErrorCode :: "string option"
  stackTrace :: json
  occurrenceCount :: nat

datatype rally_mapping =
  Mapping (mapping_type: MCPErrorType) (mapping_severity: ErrorSeverity)
          (mapping_recovery: RecoveryStrategy)

definition RALLY_ERROR_MAPPINGS :: "(string \<times> rally_mapping) list" where
  "RALLY_ERROR_MAPPINGS =
    [(''401'', Mapping AUTHENTICATION_ERROR HIGH USER_INTERVENTION),
     (''INVALID_KEY'', Mapping API_KEY_INVALID HIGH USER_INTERVENTION),
     (''EXPIRED_KEY'', Mapping API_KEY_EXPIRED HIGH USER_INTERVENTION),
     (''403'', Mapping PERMISSION_ERROR HIGH USER_INTERVENTION),
     (''INSUFFICIENT_PERMISSIONS'', Mapping UNAUTHORIZED_OPERATION MEDIUM USER_INTERVENTION),
     (''404'', Mapping NOT_FOUND_ERROR MEDIUM FAIL_FAST),
     (''OBJECT_NOT_FOUND'', Mapping NOT_FOUND_ERROR MEDIUM FAIL_FAST),
     (''OBJECT_DELETED'', Mapping RESOURCE_DELETED MEDIUM FAIL_FAST),
     (''422'', Mapping VALIDATION_ERROR MEDIUM FAIL_FAST),
     (''VALIDATION_FAILED'', Mapping FIELD_VALIDATION_ERROR MEDIUM FAIL_FAST),
     (''INVALID_FIELD'', Mapping FIELD_VALIDATION_ERROR MEDIUM FAIL_FAST),
     (''500'', Mapping RALLY_SERVER_ERROR HIGH RETRY_WITH_BACKOFF),
     (''502'', Mapping RALLY_SERVICE_UNAVAILABLE HIGH CIRCUIT_BREAKER),
     (''503'', Mapping RALLY_SERVICE_UNAVAILABLE HIGH CIRCUIT_BREAKER),
     (''504'', Mapping CONNECTION_TIMEOUT HIGH RETRY_WITH_BACKOFF),
     (''429'', Mapping RALLY_RATE_LIMIT MEDIUM RETRY_WITH_BACKOFF),
     (''RATE_LIMIT_EXCEEDED'', Mapping RALLY_RATE_LIMIT MEDIUM RETRY_WITH_BACKOFF),
     (''INVALID_WORKSPACE'', Mapping RALLY_WORKSPACE_ERROR MEDIUM USER_INTERVENTION),
     (''INVALID_PROJECT'', Mapping RALLY_PROJECT_ERROR MEDIUM USER_INTERVENTION),
     (''WORKSPACE_ACCESS_DENIED'', Mapping RALLY_WORKSPACE_ERROR HIGH USER_INTERVENTION)]"

text \<open>
  A network pattern is a case-insensitive regular expression that is an alternation of
  literal words, kept here as the list of its alternatives.  The handler reads only the
  category and the expression of a pattern; the severity, recovery options and description
  that the source table also lists are never looked at.
\<close>

datatype ErrorPattern = Pattern (errorType: MCPErrorType) (pattern: "string list")

definition NETWORK_ERROR_PATTERNS :: "ErrorPattern list" where
  "NETWORK_ERROR_PATTERNS =
    [Pattern CONNECTION_TIMEOUT [''timeout'', ''ETIMEDOUT''],
     Pattern DNS_RESOLUTION_ERROR [''ENOTFOUND'', ''getaddrinfo'', ''DNS''],
     Pattern NETWORK_ERROR [''ECONNREFUSED'', ''ECONNRESET'', ''EPIPE''],
     Pattern SSL_CERTIFICATE_ERROR [''certificate'', ''SSL'', ''TLS'', ''CERT_'']]"

definition only_strategy :: "RecoveryStrategy \<Rightarrow> RecoveryOptions" where
  "only_strategy s =
     \<lparr>strategy = s, maxRetries = None, retryDelayMs = None, backoffMultiplier = None,
      circuitBreakerThreshold = None, userMessage = None\<rparr>"

definition retrying :: "RecoveryStrategy \<Rightarrow> nat \<Rightarrow> nat \<Rightarrow> rat option \<Rightarrow> RecoveryOptions" where
  "retrying s n delay mult =
     \<lparr>strategy = s, maxRetries = Some n, retryDelayMs = Some delay, backoffMultiplier = mult,
      circuitBreakerThreshold = None, userMessage = None\<rparr>"

definition breaking :: "nat \<Rightarrow> RecoveryOptions" where
  "breaking threshold =
     \<lparr>strategy = CIRCUIT_BREAKER, maxRetries = None, retryDelayMs = None,
      backoffMultiplier = None, circuitBreakerThreshold = Some threshold, userMessage = None\<rparr>"

fun DEFAULT_RECOVERY_OPTIONS :: "MCPErrorType \<Rightarrow> RecoveryOptions" where
  "DEFAULT_RECOVERY_OPTIONS VALIDATION_ERROR = only_strategy FAIL_FAST"
| "DEFAULT_RECOVERY_OPTIONS SCHEMA_VALIDATION_ERROR = only_strategy FAIL_FAST"
| "DEFAULT_RECOVERY_OPTIONS FIELD_VALIDATION_ERROR = only_strategy FAIL_FAST"
| "DEFAULT_RECOVERY_OPTIONS AUTHENTICATION_ERROR = only_strategy USER_INTERVENTION"
| "DEFAULT_RECOVERY_OPTIONS API_KEY_INVALID = only_strategy USER_INTERVENTION"
| "DEFAULT_RECOVERY_OPTIONS API_KEY_EXPIRED = only_strategy USER_INTERVENTION"
| "DEFAULT_RECOVERY_OPTIONS PERMISSION_ERROR = only_strategy USER_INTERVENTION"
| "DEFAULT_RECOVERY_OPTIONS UNAUTHORIZED_OPERATION = only_strategy USER_INTERVENTION"
| "DEFAULT_RECOVERY_OPTIONS RALLY_API_ERROR = retrying RETRY_WITH_BACKOFF 3 1000 (Some 2)"
| "DEFAULT_RECOVERY_OPTIONS RALLY_SERVER_ERROR = retrying RETRY_WITH_BACKOFF 3 2000 (Some 2)"
| "DEFAULT_RECOVERY_OPTIONS RALLY_SERVICE_UNAVAILABLE = breaking 5"
| "DEFAULT_RECOVERY_OPTIONS RALLY_RATE_LIMIT = retrying RETRY_WITH_BACKOFF 5 5000 (Some 2)"
| "DEFAULT_RECOVERY_OPTIONS RALLY_WORKSPACE_ERROR = only_strategy USER_INTERVENTION"
| "DEFAULT_RECOVERY_OPTIONS RALLY_PROJECT_ERROR = only_strategy USER_INTERVENTION"
| "DEFAULT_RECOVERY_OPTIONS NOT_FOUND_ERROR = only_strategy FAIL_FAST"
| "DEFAULT_RECOVERY_OPTIONS RESOURCE_LOCKED = retrying RETRY_WITH_BACKOFF 3 5000 (Some (3 / 2))"
| "DEFAULT_RECOVERY_OPTIONS RESOURCE_CONFLICT = retrying RETRY 2 1000 None"
| "DEFAULT_RECOVERY_OPTIONS RESOURCE_DELETED = only_strategy FAIL_FAST"
| "DEFAULT_RECOVERY_OPTIONS NETWORK_ERROR = retrying RETRY_WITH_BACKOFF 3 1000 (Some 2)"
| "DEFAULT_RECOVERY_OPTIONS CONNECTION_TIMEOUT = retrying RETRY_WITH_BACKOFF 3 2000 (Some 2)"
| "DEFAULT_RECOVERY_OPTIONS DNS_RESOLUTION_ERROR = breaking 5"
| "DEFAULT_RECOVERY_OPTIONS SSL_CERTIFICATE_ERROR = only_strategy USER_INTERVENTION"
| "DEFAULT_RECOVERY_OPTIONS PROXY_ERROR = retrying RETRY_WITH_BACKOFF 3 1000 (Some 2)"
| "DEFAULT_RECOVERY_OPTIONS SERVICE_DEGRADED = only_strategy GRACEFUL_DEGRADATION"
| "DEFAULT_RECOVERY_OPTIONS SERVICE_OVERLOAD = breaking 3"
| "DEFAULT_RECOVERY_OPTIONS CIRCUIT_BREAKER_OPEN = only_strategy GRACEFUL_DEGRADATION"
| "DEFAULT_RECOVERY_OPTIONS RESOURCE_EXHAUSTION = breaking 2"
| "DEFAULT_RECOVERY_OPTIONS CONFIGURATION_ERROR = only_strategy USER_INTERVENTION"
| "DEFAULT_RECOVERY_OPTIONS MCP_PROTOCOL_ERROR = only_strategy FAIL_FAST"
| "DEFAULT_RECOVERY_OPTIONS TRANSPORT_ERROR = retrying RETRY_WITH_BACKOFF 3 1000 (Some 2)"
| "DEFAULT_RECOVERY_OPTIONS SERIALIZATION_ERROR = only_strategy FAIL_FAST"
| "DEFAULT_RECOVERY_OPTIONS DATA_TRANSFORMATION_ERROR = only_strategy FAIL_FAST"
| "DEFAULT_RECOVERY_OPTIONS FIELD_MAPPING_ERROR = only_strategy FAIL_FAST"
| "DEFAULT_RECOVERY_OPTIONS DATA_CORRUPTION_ERROR = only_strategy FAIL_FAST"
| "DEFAULT_RECOVERY_OPTIONS INTERNAL_ERROR = retrying RETRY 1 1000 None"
| "DEFAULT_RECOVERY_OPTIONS UNEXPECTED_ERROR = only_strategy FAIL_FAST"


section \<open>Raw failures\<close>

text \<open>
  What \<^verbatim>\<open>handleError\<close> receives is typed \<^verbatim>\<open>unknown\<close>: a primitive or an object.  An
  object is modelled by what the handler reads from it.  A property that the handler
  reads holds a Record: whatever reading the property gives, \<open>JUndefined\<close> when there is
  nothing to read.  So a property need not have the type that its TypeScript declaration
  promises: the message of a failure may be a number, the method of its request an array.
  (For an \<^verbatim>\<open>Error\<close> instance with no \<^verbatim>\<open>name\<close> or \<^verbatim>\<open>message\<close> of its own, reading gives
  the one of its prototype, \<^verbatim>\<open>'Error'\<close> and \<^verbatim>\<open>''\<close> for \<^verbatim>\<open>Error.prototype\<close>.)

  \<^item> \<open>instanceofError\<close> says whether \<^verbatim>\<open>Error.prototype\<close> is on the prototype chain; the
    errors that the HTTP client raises are such instances that carry \<^verbatim>\<open>isAxiosError\<close>,
    and so are the ones this repository's own test doubles build
    (\<^verbatim>\<open>new Error(message) as AxiosError\<close>).
  \<^item> \<open>isAxiosError\<close> says whether \<^verbatim>\<open>error.isAxiosError === true\<close>.
  \<^item> \<open>response\<close> is \<open>None\<close> when \<^verbatim>\<open>error.response\<close> is falsy.  The status of a response is
    an integer, or \<open>None\<close> when it is \<^verbatim>\<open>undefined\<close> or \<^verbatim>\<open>null\<close>; a status of any other
    type is left out.
  \<^item> \<open>request\<close> says whether \<^verbatim>\<open>error.request\<close> is truthy; it is only ever tested.
  \<^item> \<open>config\<close> is \<open>None\<close> when \<^verbatim>\<open>error.config\<close> is \<^verbatim>\<open>undefined\<close> or \<^verbatim>\<open>null\<close>.
  \<^item> \<open>string_form\<close> is what \<^verbatim>\<open>String(error)\<close> gives for the object, \<^verbatim>\<open>[object Object]\<close> for
    most; it is \<open>None\<close> for an object that has no \<^verbatim>\<open>toString\<close> to call (one made by
    \<^verbatim>\<open>Object.create(null)\<close>, say), on which the conversion raises a \<^verbatim>\<open>TypeError\<close>.

  Symbols, big integers and functions are left out, and so are objects that carry or
  inherit anything but what \<^verbatim>\<open>Object.prototype\<close> and \<^verbatim>\<open>Array.prototype\<close> give them (a
  \<^verbatim>\<open>String\<close> object, say) in the place of a property.
\<close>

datatype primitive = PUndefined | PNull | PBool bool | PNum int | PStr string

record http_response =
  status :: "int option"
  statusText :: json
  data :: json
  headers :: json

record request_config =
  url :: json
  http_method :: json

record error_object =
  instanceofError :: bool
  isAxiosError :: bool
  error_name :: json
  error_message :: json
  error_cause :: json
  error_stack :: json
  response :: "http_response option"
  request :: bool
  code :: json
  config :: "request_config option"
  string_form :: "string option"

datatype raw_failure = ObjectValue error_object | PrimitiveValue primitive

datatype js_error = TypeError

subsection \<open>Conversions to string\<close>

function string_of_nat :: "nat \<Rightarrow> string" where
  "string_of_nat n =
     (if n < 10 then [digit_chars ! n]
      else string_of_nat (n div 10) @ [digit_chars ! (n mod 10)])"
  by pat_completeness auto
termination
  by (relation "measure id") auto

text \<open>\<^verbatim>\<open>Number.prototype.toString\<close> on an integer (below \<open>10\<^sup>2\<^sup>1\<close> in size).\<close>

definition string_of_int :: "int \<Rightarrow> string" where
  "string_of_int i = (if i < 0 then CHR ''-'' # string_of_nat (nat (- i)) else string_of_nat (nat i))"

definition json_of_string :: "string option \<Rightarrow> json" where
  "json_of_string s = (case s of Some t \<Rightarrow> JStr t | None \<Rightarrow> JUndefined)"

text \<open>
  The conversion that a template literal (\<^verbatim>\<open>`Error: ${originalMessage}`\<close>) and
  \<^verbatim>\<open>RegExp.prototype.test\<close> apply to their argument.  An array is joined with commas,
  \<^verbatim>\<open>undefined\<close> and \<^verbatim>\<open>null\<close> among its elements counting as the empty string.  A plain
  object is \<^verbatim>\<open>[object Object]\<close>, through the \<^verbatim>\<open>toString\<close> it inherits from
  \<^verbatim>\<open>Object.prototype\<close>; when it has a property \<^verbatim>\<open>toString\<close> of its own, which in a Record is
  not a function, there is nothing to call and the conversion raises a \<^verbatim>\<open>TypeError\<close>.  On a
  bare object there is never anything to call.
\<close>

fun is_nullish :: "json \<Rightarrow> bool" where
  "is_nullish JUndefined = True"
| "is_nullish JNull = True"
| "is_nullish _ = False"

fun collect :: "('e + 'a) list \<Rightarrow> 'e + 'a list" where
  "collect [] = Inr []"
| "collect (x # xs) =
     (case x of
        Inl e \<Rightarrow> Inl e
      | Inr v \<Rightarrow> (case collect xs of Inl e \<Rightarrow> Inl e | Inr vs \<Rightarrow> Inr (v # vs)))"

fun join :: "string \<Rightarrow> string list \<Rightarrow> string" where
  "join separator [] = []"
| "join separator [s] = s"
| "join separator (s # t # ss) = s @ separator @ join separator (t # ss)"

fun ToString :: "json \<Rightarrow> js_error + string" where
  "ToString JUndefined = Inr ''undefined''"
| "ToString JNull = Inr ''null''"
| "ToString (JBool b) = Inr (if b then ''true'' else ''false'')"
| "ToString (JNum n) = Inr (string_of_int n)"
| "ToString (JStr s) = Inr s"
| "ToString (JArr items) =
     (case collect (map (\<lambda>item. if is_nullish item then Inr [] else ToString item) items) of
        Inl e \<Rightarrow> Inl e
      | Inr parts \<Rightarrow> Inr (join '','' parts))"
| "ToString (JObj obj) =
     (if ''toString'' \<in> set (map fst obj) then Inl TypeError else Inr ''[object Object]'')"
| "ToString (JBare obj) = Inl TypeError"

text \<open>\<^verbatim>\<open>String(value)\<close> and \<^verbatim>\<open>typeof value\<close> on a primitive.\<close>

fun primitive_String :: "primitive \<Rightarrow> string" where
  "primitive_String PUndefined = ''undefined''"
| "primitive_String PNull = ''null''"
| "primitive_String (PBool b) = (if b then ''true'' else ''false'')"
| "primitive_String (PNum n) = string_of_int n"
| "primitive_String (PStr s) = s"

fun primitive_typeof :: "primitive \<Rightarrow> string" where
  "primitive_typeof PUndefined = ''undefined''"
| "primitive_typeof PNull = ''object''"
| "primitive_typeof (PBool _) = ''boolean''"
| "primitive_typeof (PNum _) = ''number''"
| "primitive_typeof (PStr _) = ''string''"

subsection \<open>Searching strings\<close>

text \<open>\<^verbatim>\<open>String.prototype.includes\<close>\<close>

fun str_includes :: "string \<Rightarrow> string \<Rightarrow> bool" where
  "str_includes [] sub = (sub = [])"
| "str_includes (c # cs) sub = (startsWith (c # cs) sub \<or> str_includes cs sub)"

text \<open>\<^verbatim>\<open>/a|b|c/i.test(s)\<close> for literal alternatives, on a string.\<close>

definition regex_test :: "string list \<Rightarrow> string \<Rightarrow> bool" where
  "regex_test alternatives s =
     list_ex (\<lambda>a. str_includes (toLowerCase s) (toLowerCase a)) alternatives"


section \<open>The error handler (\<^verbatim>\<open>ErrorHandler.ts\<close>)\<close>

record ErrorHandlerConfig =
  config_environment :: string
  config_version :: string
  enableStackTrace :: bool
  enableErrorAggregation :: bool
  maxErrorHistory :: int

text \<open>The handler's own state: the history and the counter of each category.\<close>

record handler_state =
  errorHistory :: "MCPError list"
  errorCounts :: "MCPErrorType \<rightharpoonup> nat"

text \<open>
  The optional third argument of \<^verbatim>\<open>handleError\<close>, a \<^verbatim>\<open>Partial<ErrorContext>\<close>: the
  fields the caller chose to give.
\<close>

record partial_context =
  given_correlationId :: "string option"
  given_operation :: "string option"
  given_endpoint :: "string option"
  given_timestamp :: "int option"
  given_environment :: "string option"
  given_version :: "string option"
  given_component :: "string option"

definition getErrorCount :: "handler_state \<Rightarrow> MCPErrorType \<Rightarrow> nat" where
  "getErrorCount st t = (case errorCounts st t of Some n \<Rightarrow> n | None \<Rightarrow> 0)"

subsection \<open>Classification\<close>

text \<open>
  \<^verbatim>\<open>error.message.toLowerCase()\<close> and \<^verbatim>\<open>error.name.toLowerCase()\<close> come first, and each
  raises a \<^verbatim>\<open>TypeError\<close> on anything but a string: on \<^verbatim>\<open>undefined\<close> and \<^verbatim>\<open>null\<close> there is
  no property to read, on every other Record there is no such method to call.
\<close>

definition classifyError :: "error_object \<Rightarrow> js_error + MCPErrorType" where
  "classifyError error =
     (case error_message error of
        JStr message_text \<Rightarrow>
          (case error_name error of
             JStr name_text \<Rightarrow>
               (let msg = toLowerCase message_text;
                    nm = toLowerCase name_text
                in if str_includes nm ''validation'' \<or> str_includes msg ''validation''
                   then Inr VALIDATION_ERROR
                   else
                    (case List.find (\<lambda>p. regex_test (pattern p) msg \<or> regex_test (pattern p) nm)
                            NETWORK_ERROR_PATTERNS of
                       Some p \<Rightarrow> Inr (errorType p)
                     | None \<Rightarrow>
                         if str_includes nm ''typeerror'' then Inr DATA_TRANSFORMATION_ERROR
                         else if str_includes nm ''syntaxerror'' then Inr SERIALIZATION_ERROR
                         else if str_includes msg ''authentication''
                                 \<or> str_includes msg ''unauthorized''
                         then Inr AUTHENTICATION_ERROR
                         else if str_includes msg ''permission'' \<or> str_includes msg ''forbidden''
                         then Inr PERMISSION_ERROR
                         else Inr INTERNAL_ERROR))
           | _ \<Rightarrow> Inl TypeError)
      | _ \<Rightarrow> Inl TypeError)"

text \<open>
  The loop of \<^verbatim>\<open>classifyNetworkError\<close>: each \<^verbatim>\<open>pattern.test(message)\<close> converts the message
  to a string first, whatever it is.
\<close>

fun first_pattern :: "ErrorPattern list \<Rightarrow> json \<Rightarrow> js_error + MCPErrorType option" where
  "first_pattern [] msg = Inr None"
| "first_pattern (p # ps) msg =
     (case ToString msg of
        Inl e \<Rightarrow> Inl e
      | Inr s \<Rightarrow> if regex_test (pattern p) s then Inr (Some (errorType p))
                 else first_pattern ps msg)"

definition classifyNetworkError :: "json \<Rightarrow> js_error + MCPErrorType" where
  "classifyNetworkError msg =
     (case first_pattern NETWORK_ERROR_PATTERNS msg of
        Inl e \<Rightarrow> Inl e
      | Inr (Some t) \<Rightarrow> Inr t
      | Inr None \<Rightarrow> Inr NETWORK_ERROR)"

text \<open>
  \<^verbatim>\<open>Object.values(RALLY_ERROR_MAPPINGS).find(mapping => mapping.type === errorType)\<close>
\<close>

definition find_rally_mapping :: "MCPErrorType \<Rightarrow> rally_mapping option" where
  "find_rally_mapping t =
     List.find (\<lambda>m. mapping_type m = t) (map snd (object_entries RALLY_ERROR_MAPPINGS))"

fun default_severity :: "MCPErrorType \<Rightarrow> ErrorSeverity" where
  "default_severity AUTHENTICATION_ERROR = CRITICAL"
| "default_severity API_KEY_INVALID = CRITICAL"
| "default_severity API_KEY_EXPIRED = CRITICAL"
| "default_severity SSL_CERTIFICATE_ERROR = CRITICAL"
| "default_severity CONFIGURATION_ERROR = CRITICAL"
| "default_severity RALLY_SERVICE_UNAVAILABLE = HIGH"
| "default_severity DNS_RESOLUTION_ERROR = HIGH"
| "default_severity RESOURCE_EXHAUSTION = HIGH"
| "default_severity VALIDATION_ERROR = MEDIUM"
| "default_severity NOT_FOUND_ERROR = MEDIUM"
| "default_severity RALLY_RATE_LIMIT = MEDIUM"
| "default_severity CONNECTION_TIMEOUT = MEDIUM"
| "default_severity _ = LOW"

definition determineSeverity :: "MCPErrorType \<Rightarrow> ErrorSeverity" where
  "determineSeverity t =
     (case find_rally_mapping t of
        Some rallyMapping \<Rightarrow> mapping_severity rallyMapping
      | None \<Rightarrow> default_severity t)"

text \<open>
  The source ends with \<^verbatim>\<open>DEFAULT_RECOVERY_OPTIONS[errorType] || { strategy: FAIL_FAST }\<close>;
  the table has an entry for every category, so the alternative is never taken.
\<close>

definition determineRecoveryStrategy :: "MCPErrorType \<Rightarrow> RecoveryOptions" where
  "determineRecoveryStrategy t =
     (case find_rally_mapping t of
        Some rallyMapping \<Rightarrow> (DEFAULT_RECOVERY_OPTIONS t)\<lparr>strategy := mapping_recovery rallyMapping\<rparr>
      | None \<Rightarrow> DEFAULT_RECOVERY_OPTIONS t)"

definition getHttpErrorSeverity :: "int \<Rightarrow> ErrorSeverity" where
  "getHttpErrorSeverity n = (if n \<ge> 500 then HIGH else if n \<ge> 400 then MEDIUM else LOW)"

definition userMessages :: "(MCPErrorType \<times> string) list" where
  "userMessages =
    [(AUTHENTICATION_ERROR, ''Authentication failed. Please check your Rally API key.''),
     (API_KEY_INVALID, ''The provided Rally API key is invalid.''),
     (API_KEY_EXPIRED, ''Your Rally API key has expired. Please renew it.''),
     (PERMISSION_ERROR, ''You do not have permission to perform this operation.''),
     (NOT_FOUND_ERROR, ''The requested resource was not found.''),
     (VALIDATION_ERROR, ''The provided data is invalid.''),
     (RALLY_SERVICE_UNAVAILABLE,
        ''Rally service is temporarily unavailable. Please try again later.''),
     (RALLY_RATE_LIMIT, ''Rally API rate limit exceeded. Please wait before trying again.''),
     (CONNECTION_TIMEOUT, ''Connection timeout. Please check your network connection.''),
     (NETWORK_ERROR, ''Network error occurred. Please check your connection.''),
     (CIRCUIT_BREAKER_OPEN, ''Service is temporarily unavailable due to repeated failures.''),
     (CONFIGURATION_ERROR, ''Configuration error. Please check your settings.''),
     (INTERNAL_ERROR, ''An internal error occurred. Please try again.''),
     (UNEXPECTED_ERROR, ''An unexpected error occurred.'')]"

text \<open>
  \<^verbatim>\<open>userMessages[errorType] || `Error: ${originalMessage}`\<close>: the original message is
  converted to a string only when the category has no template.
\<close>

definition createUserFriendlyMessage :: "MCPErrorType \<Rightarrow> json \<Rightarrow> js_error + string" where
  "createUserFriendlyMessage t originalMessage =
     (case map_of userMessages t of
        Some template \<Rightarrow> Inr template
      | None \<Rightarrow>
          (case ToString originalMessage of
             Inl e \<Rightarrow> Inl e
           | Inr s \<Rightarrow> Inr (''Error: '' @ s)))"

subsection \<open>The three processing paths\<close>

definition processError :: "ErrorHandlerConfig \<Rightarrow> handler_state \<Rightarrow> error_object \<Rightarrow> ErrorContext \<Rightarrow> js_error + MCPError" where
  "processError cfg st error ctx =
     (case classifyError error of
        Inl e \<Rightarrow> Inl e
      | Inr t \<Rightarrow>
          (case createUserFriendlyMessage t (error_message error) of
             Inl e \<Rightarrow> Inl e
           | Inr user_message \<Rightarrow>
               Inr \<lparr>type = t,
                    severity = determineSeverity t,
                    message = user_message,
                    details = [(''originalMessage'', error_message error),
                               (''name'', error_name error),
                               (''cause'', error_cause error)],
                    errorContext = ctx,
                    recovery = determineRecoveryStrategy t,
                    rallyErrorCode = None,
                    stackTrace = (if enableStackTrace cfg then error_stack error else JUndefined),
                    occurrenceCount = getErrorCount st t\<rparr>))"

text \<open>
  \<^verbatim>\<open>error.config?.method?.toUpperCase()\<close>: \<^verbatim>\<open>undefined\<close> when there is no configuration or
  no method, the method in capitals when it is a string, and a \<^verbatim>\<open>TypeError\<close> when it is
  anything else.
\<close>

definition requestMethod :: "error_object \<Rightarrow> js_error + json" where
  "requestMethod error =
     (case config error of
        None \<Rightarrow> Inr JUndefined
      | Some c \<Rightarrow>
          (case http_method c of
             JUndefined \<Rightarrow> Inr JUndefined
           | JNull \<Rightarrow> Inr JUndefined
           | JStr s \<Rightarrow> Inr (JStr (toUpperCase s))
           | _ \<Rightarrow> Inl TypeError))"

text \<open>The object that \<^verbatim>\<open>processAxiosError\<close> returns, once category and severity are known.\<close>

definition axios_result :: "ErrorHandlerConfig \<Rightarrow> handler_state \<Rightarrow> error_object \<Rightarrow> ErrorContext \<Rightarrow> MCPErrorType \<Rightarrow> ErrorSeverity \<Rightarrow> string option \<Rightarrow> js_error + MCPError" where
  "axios_result cfg st error ctx t sev status_text =
     (case createUserFriendlyMessage t (error_message error) of
        Inl e \<Rightarrow> Inl e
      | Inr user_message \<Rightarrow>
          (case requestMethod error of
             Inl e \<Rightarrow> Inl e
           | Inr method_text \<Rightarrow>
               Inr \<lparr>type = t,
                    severity = sev,
                    message = user_message,
                    details =
                      [(''httpStatus'',
                          (case response error of
                             None \<Rightarrow> JUndefined
                           | Some r \<Rightarrow> (case status r of None \<Rightarrow> JUndefined | Some n \<Rightarrow> JNum n))),
                       (''httpStatusText'',
                          (case response error of None \<Rightarrow> JUndefined | Some r \<Rightarrow> statusText r)),
                       (''responseData'',
                          (case response error of None \<Rightarrow> JUndefined | Some r \<Rightarrow> data r)),
                       (''requestUrl'',
                          (case config error of None \<Rightarrow> JUndefined | Some c \<Rightarrow> url c)),
                       (''requestMethod'', method_text),
                       (''axiosCode'', code error),
                       (''headers'',
                          (case response error of None \<Rightarrow> JUndefined | Some r \<Rightarrow> headers r))],
                    errorContext = ctx,
                    recovery = determineRecoveryStrategy t,
                    rallyErrorCode = status_text,
                    stackTrace = (if enableStackTrace cfg then error_stack error else JUndefined),
                    occurrenceCount = getErrorCount st t\<rparr>))"

text \<open>
  \<^verbatim>\<open>response.status.toString()\<close> raises a \<^verbatim>\<open>TypeError\<close> when the response has no status.
\<close>

definition processAxiosError :: "ErrorHandlerConfig \<Rightarrow> handler_state \<Rightarrow> error_object \<Rightarrow> ErrorContext \<Rightarrow> js_error + MCPError" where
  "processAxiosError cfg st error ctx =
     (case response error of
        Some resp \<Rightarrow>
          (case status resp of
             None \<Rightarrow> Inl TypeError
           | Some n \<Rightarrow>
               let status_text = string_of_int n;
                   ctx' = ctx\<lparr>endpoint := (case config error of None \<Rightarrow> JUndefined
                                            | Some c \<Rightarrow> url c)\<rparr>
               in (case map_of RALLY_ERROR_MAPPINGS status_text of
                     Some mapping \<Rightarrow>
                       axios_result cfg st error ctx' (mapping_type mapping)
                         (mapping_severity mapping) (Some status_text)
                   | None \<Rightarrow>
                       axios_result cfg st error ctx' RALLY_API_ERROR
                         (getHttpErrorSeverity n) (Some status_text)))
      | None \<Rightarrow>
          if request error
          then (case classifyNetworkError (error_message error) of
                  Inl e \<Rightarrow> Inl e
                | Inr t \<Rightarrow> axios_result cfg st error ctx t HIGH None)
          else axios_result cfg st error ctx CONFIGURATION_ERROR MEDIUM None)"

definition processUnknownError :: "handler_state \<Rightarrow> raw_failure \<Rightarrow> ErrorContext \<Rightarrow> js_error + MCPError" where
  "processUnknownError st error ctx =
     (case (case error of
              ObjectValue e \<Rightarrow> string_form e
            | PrimitiveValue p \<Rightarrow> Some (primitive_String p)) of
        None \<Rightarrow> Inl TypeError
      | Some str \<Rightarrow>
          Inr \<lparr>type = UNEXPECTED_ERROR,
               severity = HIGH,
               message = ''An unexpected error occurred'',
               details = [(''error'', JStr str),
                          (''type'', JStr (case error of
                                            ObjectValue e \<Rightarrow> ''object''
                                          | PrimitiveValue p \<Rightarrow> primitive_typeof p))],
               errorContext = ctx,
               recovery = DEFAULT_RECOVERY_OPTIONS UNEXPECTED_ERROR,
               rallyErrorCode = None,
               stackTrace = JUndefined,
               occurrenceCount = getErrorCount st UNEXPECTED_ERROR\<rparr>)"

subsection \<open>\<^verbatim>\<open>handleError\<close>\<close>

definition trackError :: "handler_state \<Rightarrow> MCPError \<Rightarrow> handler_state" where
  "trackError st error =
     st\<lparr>errorCounts := (errorCounts st)(type error \<mapsto> getErrorCount st (type error) + 1)\<rparr>"

text \<open>
  \<^verbatim>\<open>errorHistory.slice(-maxErrorHistory)\<close> keeps the last \<open>maxErrorHistory\<close> entries when
  that number is positive, everything when it is zero, and drops that many from the front
  when it is negative.
\<close>

definition addToHistory :: "ErrorHandlerConfig \<Rightarrow> handler_state \<Rightarrow> MCPError \<Rightarrow> handler_state" where
  "addToHistory cfg st error =
     (let h = errorHistory st @ [error]
      in if int (length h) > maxErrorHistory cfg
         then st\<lparr>errorHistory :=
                   (if maxErrorHistory cfg > 0 then drop (length h - nat (maxErrorHistory cfg)) h
                    else drop (nat (- maxErrorHistory cfg)) h)\<rparr>
         else st\<lparr>errorHistory := h\<rparr>)"

text \<open>
  The context of the record: the defaults, overridden by whatever the caller gave
  (\<^verbatim>\<open>...context\<close>).  \<open>fresh\<close> is the identifier that \<^verbatim>\<open>uuidv4()\<close> returns and \<open>now\<close> the
  clock's reading.
\<close>

definition make_context :: "ErrorHandlerConfig \<Rightarrow> string \<Rightarrow> int \<Rightarrow> string \<Rightarrow> partial_context option \<Rightarrow> ErrorContext" where
  "make_context cfg fresh now op given =
     (let pick = (\<lambda>field dflt. case given of None \<Rightarrow> dflt
                                | Some g \<Rightarrow> (case field g of None \<Rightarrow> dflt | Some x \<Rightarrow> x))
      in \<lparr>correlationId =
            pick given_correlationId
              (case given of None \<Rightarrow> fresh
               | Some g \<Rightarrow> (case given_correlationId g of None \<Rightarrow> fresh
                            | Some c \<Rightarrow> if c = [] then fresh else c)),
          operation = pick given_operation op,
          endpoint = (case given of None \<Rightarrow> JUndefined
                      | Some g \<Rightarrow> json_of_string (given_endpoint g)),
          timestamp = (case given of None \<Rightarrow> now
                       | Some g \<Rightarrow> (case given_timestamp g of None \<Rightarrow> now | Some x \<Rightarrow> x)),
          environment = pick given_environment (config_environment cfg),
          version = pick given_version (config_version cfg),
          component = pick given_component ''mcp-rally-server''\<rparr>)"

text \<open>
  The order of the tests is the source's: \<^verbatim>\<open>error instanceof Error\<close> first, then
  \<^verbatim>\<open>isAxiosError(error)\<close>, then everything else.  There is no \<^verbatim>\<open>try\<close> around them: what a
  path raises, \<^verbatim>\<open>handleError\<close> raises.  Logging is left to the logger that the handler was
  built with; it is taken to return, and it does not change the record.
\<close>

definition handleError :: "ErrorHandlerConfig \<Rightarrow> string \<Rightarrow> int \<Rightarrow> handler_state \<Rightarrow> raw_failure \<Rightarrow> string \<Rightarrow> partial_context option \<Rightarrow> js_error + (MCPError \<times> handler_state)" where
  "handleError cfg fresh now st error op given =
     (let ctx = make_context cfg fresh now op given;
          processed =
            (case error of
               ObjectValue e \<Rightarrow>
                 if instanceofError e then processError cfg st e ctx
                 else if isAxiosError e then processAxiosError cfg st e ctx
                 else processUnknownError st error ctx
             | PrimitiveValue p \<Rightarrow> processUnknownError st error ctx)
      in case processed of
           Inl e \<Rightarrow> Inl e
         | Inr mcpError \<Rightarrow>
             let tracked = trackError st mcpError
             in Inr (mcpError,
                     if enableErrorAggregation cfg then addToHistory cfg tracked mcpError
                     else tracked))"


text \<open>\<open>classify\<close> is the record that \<^verbatim>\<open>handleError\<close> hands back to its caller.\<close>

definition classify :: "ErrorHandlerConfig \<Rightarrow> string \<Rightarrow> int \<Rightarrow> handler_state \<Rightarrow> raw_failure \<Rightarrow> string \<Rightarrow> partial_context option \<Rightarrow> js_error + MCPError" where
  "classify cfg fresh now st error op given =
     map_sum id fst (handleError cfg fresh now st error op given)"

section \<open>Sample inputs\<close>

definition sample_config :: ErrorHandlerConfig where
  "sample_config =
     \<lparr>config_environment = ''test'', config_version = ''1.0.0'', enableStackTrace = False,
      enableErrorAggregation = True, maxErrorHistory = 100\<rparr>"

definition initial_state :: handler_state where
  "initial_state = \<lparr>errorHistory = [], errorCounts = Map.empty\<rparr>"

definition response_with_status :: "int \<Rightarrow> http_response" where
  "response_with_status n =
     \<lparr>status = Some n, statusText = JUndefined, data = JUndefined, headers = JObj []\<rparr>"

text \<open>
  An error as the HTTP client raises it: an instance of \<^verbatim>\<open>Error\<close> that carries
  \<^verbatim>\<open>isAxiosError\<close> and the response.
\<close>

definition thrown_axios_error :: "int \<Rightarrow> string \<Rightarrow> error_object" where
  "thrown_axios_error n msg =
     \<lparr>instanceofError = True, isAxiosError = True, error_name = JStr ''AxiosError'',
      error_message = JStr msg, error_cause = JUndefined, error_stack = JUndefined,
      response = Some (response_with_status n), request = True, code = JUndefined,
      config = None, string_form = Some (''AxiosError: '' @ msg)\<rparr>"

text \<open>A plain object with \<^verbatim>\<open>isAxiosError: true\<close>, as a test double passes it.\<close>

definition flagged_object :: "http_response option \<Rightarrow> string option \<Rightarrow> error_object" where
  "flagged_object r msg =
     \<lparr>instanceofError = False, isAxiosError = True, error_name = JUndefined,
      error_message = json_of_string msg, error_cause = JUndefined, error_stack = JUndefined,
      response = r, request = False, code = JUndefined, config = None,
      string_form = Some ''[object Object]''\<rparr>"

definition plain_error :: "string \<Rightarrow> string \<Rightarrow> error_object" where
  "plain_error nm msg =
     \<lparr>instanceofError = True, isAxiosError = False, error_name = JStr nm,
      error_message = JStr msg, error_cause = JUndefined, error_stack = JUndefined,
      response = None, request = False, code = JUndefined, config = None,
      string_form = Some (nm @ '': '' @ msg)\<rparr>"

text \<open>
  A response that reached the handler without its status: the malformed input on which
  \<^verbatim>\<open>processAxiosError\<close> raises.
\<close>

definition response_without_status :: http_response where
  "response_without_status =
     \<lparr>status = None, statusText = JUndefined, data = JObj [], headers = JObj []\<rparr>"

text \<open>An object with no prototype, as \<^verbatim>\<open>Object.create(null)\<close> makes it.\<close>

definition bare_object :: error_object where
  "bare_object =
     \<lparr>instanceofError = False, isAxiosError = False, error_name = JUndefined,
      error_message = JUndefined, error_cause = JUndefined, error_stack = JUndefined,
      response = None, request = False, code = JUndefined, config = None,
      string_form = None\<rparr>"

text \<open>
  An \<^verbatim>\<open>Error\<close> whose message was overwritten with a number
  (\<^verbatim>\<open>Object.assign(new Error('x'), { message: 42 })\<close>), and one whose name was set to
  \<^verbatim>\<open>undefined\<close>.
\<close>

definition error_with_numeric_message :: error_object where
  "error_with_numeric_message = (plain_error ''Error'' ''x'')\<lparr>error_message := JNum 42\<rparr>"

definition error_without_name :: error_object where
  "error_without_name = (plain_error ''Error'' ''x'')\<lparr>error_name := JUndefined\<rparr>"

text \<open>
  A flagged object with status 404 whose request configuration has the number 5 for a
  method, and a flagged object for a request that got no response, whose message is an
  object with a \<^verbatim>\<open>toString\<close> property that is not a function.
\<close>

definition flagged_with_numeric_method :: error_object where
  "flagged_with_numeric_method =
     (flagged_object (Some (response_with_status 404)) (Some ''Not Found''))
       \<lparr>config := Some \<lparr>url = JStr ''/story/1'', http_method = JNum 5\<rparr>\<rparr>"

definition flagged_with_opaque_message :: error_object where
  "flagged_with_opaque_message =
     (flagged_object None None)
       \<lparr>error_message := JObj [(''toString'', JNull)], request := True\<rparr>"

text \<open>A flagged object for a \<^verbatim>\<open>get\<close> request that was answered with status 404.\<close>

definition flagged_not_found :: error_object where
  "flagged_not_found =
     (flagged_object (Some (response_with_status 404)) (Some ''Not Found''))
       \<lparr>config := Some \<lparr>url = JStr ''/story/1'', http_method = JStr ''get''\<rparr>\<rparr>"

text \<open>A plain object that is neither an \<^verbatim>\<open>Error\<close> nor flagged: \<^verbatim>\<open>{ reason: 'x' }\<close>, say.\<close>

definition plain_object :: error_object where
  "plain_object = bare_object\<lparr>string_form := Some ''[object Object]''\<rparr>"

section \<open>Vocabulary for the properties\<close>

text \<open>
  A regular name is what the generic reconstruction can give back: ASCII letters and
  digits only, a capital first, and every capital followed by a lowercase letter or a
  digit (so no acronyms and no capital at the end).
\<close>

fun regular :: "string \<Rightarrow> bool" where
  "regular [] = True"
| "regular [c] = (is_lower c \<or> is_digit c)"
| "regular (c # d # cs) =
     ((is_lower c \<or> is_digit c \<or> (is_upper c \<and> (is_lower d \<or> is_digit d)))
      \<and> regular (d # cs))"

definition regular_name :: "string \<Rightarrow> bool" where
  "regular_name s = (case s of [] \<Rightarrow> False | c # cs \<Rightarrow> is_upper c \<and> regular s)"

text \<open>
  The external names on which the round trip is proved: the names the table gives, and the
  regular names whose kebab form the table and \<^verbatim>\<open>Object.prototype\<close> do not intercept.
\<close>

definition supported_external :: "string \<Rightarrow> bool" where
  "supported_external n \<longleftrightarrow>
     n \<in> set (map snd specialCases)
     \<or> (regular_name n \<and> map_of specialCases (camelToKebab n) = None
         \<and> inherited_text (camelToKebab n) = None)"

definition lowerfirst :: "string \<Rightarrow> string" where
  "lowerfirst s = (case s of [] \<Rightarrow> [] | c # cs \<Rightarrow> lower_char c # cs)"

text \<open>\<open>wrap [k\<^sub>1, \<dots>, k\<^sub>n] d\<close> is \<^verbatim>\<open>{k1: {k2: \<dots> {kn: d}}}\<close>, nested \<open>n\<close> levels deep.\<close>

definition wrap :: "string list \<Rightarrow> json \<Rightarrow> json" where
  "wrap keys d = foldr (\<lambda>key v. JObj [(key, v)]) keys d"

text \<open>The values that take the third path of \<^verbatim>\<open>handleError\<close>.\<close>

definition unrecognised :: "raw_failure \<Rightarrow> bool" where
  "unrecognised failure =
     (case failure of
        ObjectValue e \<Rightarrow> \<not> instanceofError e \<and> \<not> isAxiosError e
      | PrimitiveValue p \<Rightarrow> True)"

fun is_string :: "json \<Rightarrow> bool" where
  "is_string (JStr _) = True"
| "is_string _ = False"

text \<open>
  A Record has a string form when the conversion to a string has something to call all
  the way down: no object that the conversion reaches (the Record itself, or an element of
  an array that it reaches) is bare or has a property \<^verbatim>\<open>toString\<close> of its own.
\<close>

fun has_string_form :: "json \<Rightarrow> bool" where
  "has_string_form (JArr items) = list_all has_string_form items"
| "has_string_form (JObj obj) = (''toString'' \<notin> set (map fst obj))"
| "has_string_form (JBare obj) = False"
| "has_string_form _ = True"

text \<open>The method of the request is usable when there is none or it is a string.\<close>

definition method_usable :: "error_object \<Rightarrow> bool" where
  "method_usable e =
     (case config e of
        None \<Rightarrow> True
      | Some c \<Rightarrow> is_nullish (http_method c) \<or> is_string (http_method c))"

text \<open>
  A failure is inspectable when the handler can look at it without raising.  A primitive
  is.  An \<^verbatim>\<open>Error\<close> instance is when its message and its name are strings.  An object
  flagged \<^verbatim>\<open>isAxiosError\<close> is when its response, if it has one, has a status, the method of
  its request is usable and its message has a string form.  Any other object is when
  \<^verbatim>\<open>String\<close> can convert it.
\<close>

definition inspectable :: "raw_failure \<Rightarrow> bool" where
  "inspectable failure =
     (case failure of
        ObjectValue e \<Rightarrow>
          if instanceofError e then is_string (error_message e) \<and> is_string (error_name e)
          else if isAxiosError e
          then (case response e of None \<Rightarrow> True | Some r \<Rightarrow> status r \<noteq> None)
               \<and> method_usable e \<and> has_string_form (error_message e)
          else string_form e \<noteq> None
      | PrimitiveValue p \<Rightarrow> True)"

text \<open>
  A failure is malformed when one of the conversions is bound to fail: an \<^verbatim>\<open>Error\<close>
  instance whose message or name is not a string; a flagged object whose response has no
  status, or whose request has a method that is not usable, or that has no response but a
  request and a message without a string form; any other object that \<^verbatim>\<open>String\<close> cannot
  convert.
\<close>

definition malformed :: "raw_failure \<Rightarrow> bool" where
  "malformed failure =
     (case failure of
        ObjectValue e \<Rightarrow>
          if instanceofError e
          then \<not> is_string (error_message e) \<or> \<not> is_string (error_name e)
          else if isAxiosError e
          then (case response e of
                  None \<Rightarrow> request e \<and> \<not> has_string_form (error_message e)
                | Some r \<Rightarrow> status r = None)
               \<or> \<not> method_usable e
          else string_form e = None
      | PrimitiveValue p \<Rightarrow> False)"

text \<open>
  The sentences that a record can carry for its category: the template of
  \<^verbatim>\<open>userMessages\<close> for thirteen categories, and for the category unexpected the sentence
  that \<^verbatim>\<open>processUnknownError\<close> writes, which has no full stop.
\<close>

definition fixed_sentences :: "(MCPErrorType \<times> string) list" where
  "fixed_sentences =
    [(AUTHENTICATION_ERROR, ''Authentication failed. Please check your Rally API key.''),
     (API_KEY_INVALID, ''The provided Rally API key is invalid.''),
     (API_KEY_EXPIRED, ''Your Rally API key has expired. Please renew it.''),
     (PERMISSION_ERROR, ''You do not have permission to perform this operation.''),
     (NOT_FOUND_ERROR, ''The requested resource was not found.''),
     (VALIDATION_ERROR, ''The provided data is invalid.''),
     (RALLY_SERVICE_UNAVAILABLE,
        ''Rally service is temporarily unavailable. Please try again later.''),
     (RALLY_RATE_LIMIT, ''Rally API rate limit exceeded. Please wait before trying again.''),
     (CONNECTION_TIMEOUT, ''Connection timeout. Please check your network connection.''),
     (NETWORK_ERROR, ''Network error occurred. Please check your connection.''),
     (CIRCUIT_BREAKER_OPEN, ''Service is temporarily unavailable due to repeated failures.''),
     (CONFIGURATION_ERROR, ''Configuration error. Please check your settings.''),
     (INTERNAL_ERROR, ''An internal error occurred. Please try again.''),
     (UNEXPECTED_ERROR, ''An unexpected error occurred'')]"

text \<open>The failure's own message as a string, empty when there is none to be had.\<close>

definition own_message_text :: "raw_failure \<Rightarrow> string" where
  "own_message_text failure =
     (case failure of
        ObjectValue e \<Rightarrow> (case ToString (error_message e) of Inl _ \<Rightarrow> [] | Inr s \<Rightarrow> s)
      | PrimitiveValue p \<Rightarrow> [])"

section \<open>Records in the store\<close>

text \<open>
  Whether the transformer changes the record it is given is a question about objects that
  are shared, so the two structural functions are modelled a second time with the objects
  in a store.  A value is a primitive or a reference; the store is the list of all objects
  allocated so far, and a reference is an index into it.  A new object goes to the end of
  the list.
\<close>

datatype hval = VUndefined | VNull | VBool bool | VNum int | VStr string | VRef nat

text \<open>An array, a plain object, a bare object.\<close>

datatype hobj =
    Arr "hval list"
  | Obj "(string \<times> hval) list"
  | Bare "(string \<times> hval) list"

type_synonym store = "hobj list"

fun is_ref :: "hval \<Rightarrow> bool" where
  "is_ref (VRef _) = True"
| "is_ref _ = False"

text \<open>Storing the next element of the array at \<open>t\<close>.\<close>

definition push :: "store \<Rightarrow> nat \<Rightarrow> hval \<Rightarrow> store" where
  "push h t v = (case h ! t of Arr items \<Rightarrow> h[t := Arr (items @ [v])] | _ \<Rightarrow> h)"

text \<open>
  \<^verbatim>\<open>transformed[key] = v\<close> for the object at \<open>t\<close>, as \<open>assign_prop\<close> has it: on a plain
  object the key \<^verbatim>\<open>__proto__\<close> creates no property, and makes the object bare when the
  value is \<^verbatim>\<open>null\<close> or a bare object.
\<close>

definition makes_bare :: "store \<Rightarrow> hval \<Rightarrow> bool" where
  "makes_bare h v =
     (case v of
        VNull \<Rightarrow> True
      | VRef a \<Rightarrow> a < length h \<and> (case h ! a of Bare obj \<Rightarrow> True | _ \<Rightarrow> False)
      | _ \<Rightarrow> False)"

definition assign :: "store \<Rightarrow> nat \<Rightarrow> string \<Rightarrow> hval \<Rightarrow> store" where
  "assign h t key v =
     (case h ! t of
        Obj obj \<Rightarrow>
          if key = ''__proto__''
          then (if makes_bare h v then h[t := Bare obj] else h)
          else h[t := Obj (set_prop obj key v)]
      | Bare obj \<Rightarrow> h[t := Bare (set_prop obj key v)]
      | Arr items \<Rightarrow> h)"

text \<open>
  \<^verbatim>\<open>rallyToMcp\<close> and \<^verbatim>\<open>mcpToRally\<close> are the same code but for the function they apply to a
  key, so one definition with that function as a parameter stands for both.  The first
  number is how many nested calls of the function the call stack still has room for; the
  result is \<open>None\<close> when that room runs out.  (It is also \<open>None\<close> for a reference that
  points outside the store, which no JavaScript reference does.)

  An array: \<^verbatim>\<open>data.map(\<dots>)\<close> allocates the new array, then calls the function on each
  element and stores what it returns.  An object: \<^verbatim>\<open>transformed\<close> is allocated, then each
  entry of \<^verbatim>\<open>Object.entries(obj)\<close> is written to it, with a nested call only for a value
  that is an object.
\<close>

fun transform_store :: "(string \<Rightarrow> string) \<Rightarrow> nat \<Rightarrow> store \<Rightarrow> hval \<Rightarrow> (hval \<times> store) option"
  and map_items :: "(string \<Rightarrow> string) \<Rightarrow> nat \<Rightarrow> store \<Rightarrow> nat \<Rightarrow> hval list \<Rightarrow> store option"
  and copy_entries :: "(string \<Rightarrow> string) \<Rightarrow> nat \<Rightarrow> store \<Rightarrow> nat \<Rightarrow> (string \<times> hval) list \<Rightarrow> store option"
where
  "transform_store f 0 h v = None"
| "transform_store f (Suc n) h (VRef a) =
     (if a < length h
      then (case h ! a of
              Arr items \<Rightarrow>
                (case map_items f n (h @ [Arr []]) (length h) items of
                   None \<Rightarrow> None
                 | Some h' \<Rightarrow> Some (VRef (length h), h'))
            | Obj obj \<Rightarrow>
                (case copy_entries f n (h @ [Obj []]) (length h) (object_entries obj) of
                   None \<Rightarrow> None
                 | Some h' \<Rightarrow> Some (VRef (length h), h'))
            | Bare obj \<Rightarrow>
                (case copy_entries f n (h @ [Obj []]) (length h) (object_entries obj) of
                   None \<Rightarrow> None
                 | Some h' \<Rightarrow> Some (VRef (length h), h')))
      else None)"
| "transform_store f (Suc n) h v = Some (v, h)"
| "map_items f n h t [] = Some h"
| "map_items f n h t (item # items) =
     (case transform_store f n h item of
        None \<Rightarrow> None
      | Some (v, h') \<Rightarrow> map_items f n (push h' t v) t items)"
| "copy_entries f n h t [] = Some h"
| "copy_entries f n h t ((key, v) # entries) =
     (case (if is_ref v then transform_store f n h v else Some (v, h)) of
        None \<Rightarrow> None
      | Some (v', h') \<Rightarrow> copy_entries f n (assign h' t (f key) v') t entries)"

definition rallyToMcp_store :: "nat \<Rightarrow> store \<Rightarrow> hval \<Rightarrow> (hval \<times> store) option" where
  "rallyToMcp_store = transform_store rallyFieldToMcp"

definition mcpToRally_store :: "nat \<Rightarrow> store \<Rightarrow> hval \<Rightarrow> (hval \<times> store) option" where
  "mcpToRally_store = transform_store mcpFieldToRally"

text \<open>
  \<open>fits n h v\<close>: the record at \<open>v\<close> is well formed (its references point into the store, and
  it has no cycle) and \<open>n\<close> nested calls are enough to walk through it.
\<close>

fun fits :: "nat \<Rightarrow> store \<Rightarrow> hval \<Rightarrow> bool" where
  "fits 0 h v = False"
| "fits (Suc n) h (VRef a) =
     (a < length h \<and>
      (case h ! a of
         Arr items \<Rightarrow> list_all (fits n h) items
       | Obj obj \<Rightarrow> list_all (\<lambda>p. if is_ref (snd p) then fits n h (snd p) else True) obj
       | Bare obj \<Rightarrow> list_all (\<lambda>p. if is_ref (snd p) then fits n h (snd p) else True) obj))"
| "fits (Suc n) h v = True"

text \<open>Nothing that the store held has changed: the old store is the beginning of the new one.\<close>

definition unchanged :: "store \<Rightarrow> store \<Rightarrow> bool" where
  "unchanged h h' \<longleftrightarrow> take (length h) h' = h"

text \<open>The record \<^verbatim>\<open>{k1: {k2: \<dots> {kn: 'test'}}}\<close> in a store of its own, innermost object first.\<close>

fun nested_store :: "string list \<Rightarrow> store" where
  "nested_store [] = []"
| "nested_store [key] = [Obj [(key, VStr ''test'')]]"
| "nested_store (key # keys) = nested_store keys @ [Obj [(key, VRef (length keys - 1))]]"

text \<open>
  A story with an array of tags, as it lies in the store: the object at 0 refers to the
  array at 1.
\<close>

definition sample_store :: store where
  "sample_store =
     [Obj [(''FormattedID'', VStr ''US1234''), (''_ref'', VStr ''https://x/123''),
           (''Tags'', VRef 1)],
      Arr [VStr ''ui'', VNull, VNum 3]]"

text \<open>
  \<open>represents_from b h v j\<close>: in the store \<open>h\<close> the value \<open>v\<close> is the record \<open>j\<close>, and every
  object of it lies at an address from \<open>b\<close> on.  With \<open>b = 0\<close> this is just ``\<open>v\<close> is \<open>j\<close>''.
  \<open>under_construction b h t j\<close> says the same of the object at the address \<open>t\<close> and its
  properties.
\<close>

fun represents_from :: "nat \<Rightarrow> store \<Rightarrow> hval \<Rightarrow> json \<Rightarrow> bool" where
  "represents_from b h v JUndefined = (v = VUndefined)"
| "represents_from b h v JNull = (v = VNull)"
| "represents_from b h v (JBool x) = (v = VBool x)"
| "represents_from b h v (JNum x) = (v = VNum x)"
| "represents_from b h v (JStr x) = (v = VStr x)"
| "represents_from b h v (JArr js) =
     (case v of
        VRef a \<Rightarrow>
          b \<le> a \<and> a < length h \<and>
          (case h ! a of
             Arr items \<Rightarrow> list_all2 (represents_from b h) items js
           | _ \<Rightarrow> False)
      | _ \<Rightarrow> False)"
| "represents_from b h v (JObj ps) =
     (case v of
        VRef a \<Rightarrow>
          b \<le> a \<and> a < length h \<and>
          (case h ! a of
             Obj obj \<Rightarrow>
               list_all2 (\<lambda>e p. fst e = fst p \<and> represents_from b h (snd e) (snd p)) obj ps
           | _ \<Rightarrow> False)
      | _ \<Rightarrow> False)"
| "represents_from b h v (JBare ps) =
     (case v of
        VRef a \<Rightarrow>
          b \<le> a \<and> a < length h \<and>
          (case h ! a of
             Bare obj \<Rightarrow>
               list_all2 (\<lambda>e p. fst e = fst p \<and> represents_from b h (snd e) (snd p)) obj ps
           | _ \<Rightarrow> False)
      | _ \<Rightarrow> False)"


definition under_construction :: "nat \<Rightarrow> store \<Rightarrow> nat \<Rightarrow> json \<Rightarrow> bool" where
  "under_construction b h t j =
     (t < length h \<and>
      (case j of
         JObj ps \<Rightarrow>
           (case h ! t of
              Obj obj \<Rightarrow>
                list_all2 (\<lambda>e p. fst e = fst p \<and> represents_from b h (snd e) (snd p)) obj ps
            | _ \<Rightarrow> False)
       | JBare ps \<Rightarrow>
           (case h ! t of
              Bare obj \<Rightarrow>
                list_all2 (\<lambda>e p. fst e = fst p \<and> represents_from b h (snd e) (snd p)) obj ps
            | _ \<Rightarrow> False)
       | _ \<Rightarrow> False))"

text \<open>How deep a record is nested: a primitive 0, an object or array one more than its parts.\<close>

fun nesting :: "json \<Rightarrow> nat" where
  "nesting (JArr items) = Suc (foldr max (map nesting items) 0)"
| "nesting (JObj obj) = Suc (foldr max (map (\<lambda>(key, v). nesting v) obj) 0)"
| "nesting (JBare obj) = Suc (foldr max (map (\<lambda>(key, v). nesting v) obj) 0)"
| "nesting _ = 0"

text \<open>The same story as a record.\<close>

definition sample_record :: json where
  "sample_record =
     JObj [(''FormattedID'', JStr ''US1234''), (''_ref'', JStr ''https://x/123''),
           (''Tags'', JArr [JStr ''ui'', JNull, JNum 3])]"

section \<open>Properties of the transformer\<close>

subsection \<open>Characters\<close>

lemma upper_not_lower: "is_upper c \<Longrightarrow> \<not> is_lower c \<and> \<not> is_digit c"
proof -
  have "list_all (\<lambda>c. \<not> is_lower c \<and> \<not> is_digit c) upper_letters" by code_simp
  then show "is_upper c \<Longrightarrow> \<not> is_lower c \<and> \<not> is_digit c"
    by (simp add: is_upper_def list_all_iff)
qed

lemma upper_not_marker: "is_upper c \<Longrightarrow> c \<noteq> CHR ''_'' \<and> c \<noteq> CHR ''c''"
proof -
  have "list_all (\<lambda>c. c \<noteq> CHR ''_'' \<and> c \<noteq> CHR ''c'') upper_letters" by code_simp
  then show "is_upper c \<Longrightarrow> c \<noteq> CHR ''_'' \<and> c \<noteq> CHR ''c''"
    by (simp add: is_upper_def list_all_iff)
qed

lemma upper_lower_char: "is_upper c \<Longrightarrow> upper_char (lower_char c) = c"
proof -
  have "list_all (\<lambda>c. upper_char (lower_char c) = c) upper_letters" by code_simp
  then show "is_upper c \<Longrightarrow> upper_char (lower_char c) = c"
    by (simp add: is_upper_def list_all_iff)
qed

lemma lower_char_fix: "is_lower c \<or> is_digit c \<Longrightarrow> lower_char c = c"
proof -
  have "list_all (\<lambda>c. lower_char c = c) (lower_letters @ digit_chars)" by code_simp
  then show "is_lower c \<or> is_digit c \<Longrightarrow> lower_char c = c"
    by (auto simp add: is_lower_def is_digit_def list_all_iff)
qed

lemma lower_char_not_dash:
  "is_lower c \<or> is_digit c \<or> is_upper c \<Longrightarrow> lower_char c \<noteq> CHR ''-''"
proof -
  have "list_all (\<lambda>c. lower_char c \<noteq> CHR ''-'')
          (lower_letters @ digit_chars @ upper_letters)"
    by code_simp
  then show "is_lower c \<or> is_digit c \<or> is_upper c \<Longrightarrow> lower_char c \<noteq> CHR ''-''"
    by (auto simp add: is_lower_def is_digit_def is_upper_def list_all_iff)
qed

lemma lower_char_upper: "is_upper c \<Longrightarrow> is_lower (lower_char c)"
proof -
  have "list_all (\<lambda>c. is_lower (lower_char c)) upper_letters" by code_simp
  then show "is_upper c \<Longrightarrow> is_lower (lower_char c)"
    by (simp add: is_upper_def list_all_iff)
qed

lemma lower_char_other: "\<not> is_upper c \<Longrightarrow> lower_char c = c"
proof -
  assume "\<not> is_upper c"
  moreover have "map fst (zip upper_letters lower_letters) = upper_letters"
    by (simp add: upper_letters_def lower_letters_def)
  ultimately have "map_of (zip upper_letters lower_letters) c = None"
    by (metis is_upper_def map_of_eq_None_iff set_map)
  then show ?thesis by (simp add: lower_char_def)
qed

lemma lower_char_idem: "lower_char (lower_char c) = lower_char c"
  by (cases "is_upper c") (simp_all add: lower_char_other lower_char_fix lower_char_upper)

lemma toLowerCase_idem: "toLowerCase (toLowerCase s) = toLowerCase s"
  by (simp add: toLowerCase_def lower_char_idem)

lemma lower_char_dash: "lower_char CHR ''-'' = CHR ''-''"
  by code_simp

subsection \<open>The two replacements\<close>

text \<open>
  Nothing matches \<^verbatim>\<open>([A-Z]+)([A-Z][a-z])\<close> at a position that does not start two
  capitals in a row.
\<close>

lemma match_acronym_None:
  "\<not> is_upper c \<or> cs = [] \<or> \<not> is_upper (hd cs) \<Longrightarrow> match_acronym (c # cs) = None"
  by (cases cs) (auto simp: match_acronym_def)

text \<open>
  At a run of capitals that a capital and a lowercase letter follow, the expression matches
  with the whole run as its first group: the split comes before the last capital.
\<close>

lemma match_acronym_run:
  assumes "us \<noteq> []" "list_all is_upper us" "is_upper u" "is_lower l"
  shows "match_acronym (us @ u # l # rest) = Some (length us)"
proof -
  have nl: "\<not> is_upper l" using assms(4) upper_not_lower by blast
  have tw: "takeWhile is_upper (us @ u # l # rest) = us @ [u]"
    using assms(2,3) nl by (simp add: takeWhile_append2 list_all_iff)
  obtain m where m: "length us = Suc m" using assms(1) by (cases us) auto
  have cand: "rev [1 ..< Suc (length (us @ [u]))] = Suc (Suc m) # Suc m # rev [1 ..< Suc m]"
    using m by simp
  have at_top: "(us @ u # l # rest) ! Suc (Suc m) = l"
    using m by (metis Cons_nth_drop_Suc append.assoc append_Cons append_Nil length_append_singleton
        nth_append_length)
  have at_u: "(us @ u # l # rest) ! Suc m = u"
    using m by (metis nth_append_length)
  show ?thesis
    unfolding match_acronym_def tw cand
    using nl assms(3,4) at_top at_u m by simp
qed

lemma replace_acronym_splits_run:
  assumes "us \<noteq> []" "list_all is_upper us" "is_upper u" "is_lower l"
  shows "replace_acronym (us @ u # l # rest) = us @ ''-'' @ [u, l] @ replace_acronym rest"
proof -
  obtain c cs where us: "us = c # cs" using assms(1) by (cases us) auto
  have "match_acronym (c # cs @ u # l # rest) = Some (length us)"
    using match_acronym_run[OF assms, of rest] us by simp
  then show ?thesis using us by simp
qed

lemma replace_acronym_regular: "regular s \<Longrightarrow> replace_acronym s = s"
proof (induction s rule: regular.induct)
  case 1
  then show ?case by simp
next
  case (2 c)
  then show ?case by (simp add: match_acronym_None)
next
  case (3 c d cs)
  then have "match_acronym (c # d # cs) = None"
    using upper_not_lower by (intro match_acronym_None) auto
  with 3 show ?case by simp
qed

lemma replace_dash_Cons: "c \<noteq> CHR ''-'' \<Longrightarrow> replace_dash (c # cs) = c # replace_dash cs"
  by (cases cs) simp_all

text \<open>
  On a regular name, undoing the lowercased second replacement gives the name back but for
  its first letter.
\<close>

lemma kebab_back:
  "regular s \<Longrightarrow> replace_dash (toLowerCase (replace_boundary s)) = lowerfirst s"
proof (induction s rule: regular.induct)
  case 1
  then show ?case by (simp add: toLowerCase_def lowerfirst_def)
next
  case (2 c)
  then show ?case by (simp add: toLowerCase_def lowerfirst_def)
next
  case (3 c d cs)
  then have reg: "regular (d # cs)" by simp
  with 3 have IH: "replace_dash (toLowerCase (replace_boundary (d # cs))) = lowerfirst (d # cs)"
    by simp
  show ?case
  proof (cases "is_upper c")
    case True
    then have nl: "\<not> (is_lower c \<or> is_digit c)" using upper_not_lower by blast
    from True have "lower_char c \<noteq> CHR ''-''" by (simp add: lower_char_not_dash)
    moreover from True nl 3 have "lower_char d = d" by (auto simp: lower_char_fix)
    ultimately show ?thesis using nl IH
      by (simp add: toLowerCase_def lowerfirst_def replace_dash_Cons)
  next
    case False
    with 3 have c: "is_lower c \<or> is_digit c" by auto
    then have lc: "lower_char c = c" "c \<noteq> CHR ''-''"
      using lower_char_fix lower_char_not_dash[of c] by auto
    show ?thesis
    proof (cases "is_upper d")
      case True
      then obtain e es where cs: "cs = e # es" and e: "is_lower e \<or> is_digit e"
        using reg upper_not_lower by (cases cs) auto
      from True have nd: "\<not> (is_lower d \<or> is_digit d)" using upper_not_lower by blast
      have "replace_dash (toLowerCase (replace_boundary (d # cs)))
            = lower_char d # replace_dash (toLowerCase (replace_boundary cs))"
        using cs nd True by (simp add: toLowerCase_def replace_dash_Cons lower_char_not_dash)
      with IH have rest: "replace_dash (toLowerCase (replace_boundary cs)) = cs"
        by (simp add: lowerfirst_def)
      show ?thesis using c True lc rest
        by (simp add: toLowerCase_def lowerfirst_def replace_dash_Cons lower_char_upper
              upper_lower_char lower_char_dash)
    next
      case False
      with reg have d: "is_lower d \<or> is_digit d" by (cases cs) auto
      then have "lower_char d = d" by (simp add: lower_char_fix)
      with False c lc IH show ?thesis
        by (simp add: toLowerCase_def lowerfirst_def replace_dash_Cons)
    qed
  qed
qed

lemma regular_name_round_trip:
  assumes "regular_name s"
  shows "kebabToPascal (camelToKebab s) = s"
proof -
  from assms obtain c cs where s: "s = c # cs" and u: "is_upper c" and r: "regular s"
    by (auto simp: regular_name_def split: list.splits)
  have "kebabToCamel (camelToKebab s) = lowerfirst s"
    using r by (simp add: kebabToCamel_def camelToKebab_def toLowerCase_idem
                  replace_acronym_regular kebab_back)
  then show ?thesis
    using s u by (simp add: kebabToPascal_def lowerfirst_def toUpperCase_def upper_lower_char)
qed

subsection \<open>Field names\<close>

lemma rallyFieldToMcp_metadata: "rallyFieldToMcp (''_'' @ s) = ''metadata-'' @ camelToKebab s"
  by (simp add: rallyFieldToMcp_def substring_from_def)

lemma rallyFieldToMcp_custom: "rallyFieldToMcp (''c_'' @ s) = ''custom-'' @ camelToKebab s"
  by (simp add: rallyFieldToMcp_def substring_from_def)

lemma mcpFieldToRally_metadata:
  "mcpFieldToRally (''metadata-'' @ s) = ''_'' @ kebabToRallySpecialCase s"
  by (simp add: mcpFieldToRally_def substring_from_def)

lemma mcpFieldToRally_custom:
  "mcpFieldToRally (''custom-'' @ s) = ''c_'' @ kebabToRallySpecialCase s"
  by (simp add: mcpFieldToRally_def substring_from_def)

text \<open>No external name becomes \<^verbatim>\<open>__proto__\<close> on the way in.\<close>

lemma match_acronym_positive: "match_acronym s = Some k \<Longrightarrow> 1 \<le> k"
proof -
  assume "match_acronym s = Some k"
  then have "k \<in> set (rev [1 ..< Suc (length (takeWhile is_upper s))])"
    unfolding match_acronym_def by (metis find_Some_iff nth_mem)
  then show ?thesis by auto
qed

lemma replace_acronym_head: "\<exists>rest. replace_acronym (c # cs) = c # rest"
proof (cases "match_acronym (c # cs)")
  case None
  then show ?thesis by simp
next
  case (Some k)
  then obtain j where "k = Suc j" using match_acronym_positive by (cases k) fastforce+
  with Some show ?thesis by simp
qed

lemma replace_boundary_head: "\<exists>rest. replace_boundary (c # cs) = c # rest"
  by (cases cs) simp_all

lemma camelToKebab_head: "\<exists>rest. camelToKebab (c # cs) = lower_char c # rest"
proof -
  obtain r1 where "replace_acronym (c # cs) = c # r1" using replace_acronym_head by blast
  moreover obtain r2 where "replace_boundary (c # r1) = c # r2"
    using replace_boundary_head by blast
  ultimately show ?thesis by (simp add: camelToKebab_def toLowerCase_def)
qed

lemma lower_char_underscore: "lower_char c = CHR ''_'' \<Longrightarrow> c = CHR ''_''"
proof (cases "is_upper c")
  case True
  assume "lower_char c = CHR ''_''"
  moreover have "\<not> is_lower CHR ''_''" by code_simp
  ultimately show ?thesis using lower_char_upper[OF True] by simp
next
  case False
  assume "lower_char c = CHR ''_''"
  with False show ?thesis by (simp add: lower_char_other)
qed

lemma rallyFieldToMcp_not_proto: "rallyFieldToMcp key \<noteq> ''__proto__''"
proof (cases key)
  case Nil
  then show ?thesis by (simp add: rallyFieldToMcp_def camelToKebab_def toLowerCase_def)
next
  case (Cons c cs)
  show ?thesis
  proof (cases "c = CHR ''_''")
    case True
    with Cons show ?thesis by (simp add: rallyFieldToMcp_def)
  next
    case False
    obtain rest where k: "camelToKebab (c # cs) = lower_char c # rest"
      using camelToKebab_head by blast
    from False have "lower_char c \<noteq> CHR ''_''" using lower_char_underscore by blast
    with k Cons False show ?thesis by (simp add: rallyFieldToMcp_def)
  qed
qed

lemma table_values_round_trip:
  "list_all (\<lambda>n. kebabToRallySpecialCase (camelToKebab n) = n
               \<and> \<not> startsWith n ''_'' \<and> \<not> startsWith n ''c_'')
     (map snd specialCases)"
  by code_simp

lemma supported_external_core:
  assumes "supported_external n"
  shows "kebabToRallySpecialCase (camelToKebab n) = n \<and> \<not> startsWith n ''_''
         \<and> \<not> startsWith n ''c_''"
proof (cases "n \<in> set (map snd specialCases)")
  case True
  then show ?thesis
    using table_values_round_trip unfolding list_all_iff by blast
next
  case False
  with assms have r: "regular_name n" and t: "map_of specialCases (camelToKebab n) = None"
    and i: "inherited_text (camelToKebab n) = None"
    by (auto simp: supported_external_def)
  from r obtain c cs where n: "n = c # cs" and u: "is_upper c"
    by (auto simp: regular_name_def split: list.splits)
  have "kebabToRallySpecialCase (camelToKebab n) = n"
    using t i regular_name_round_trip[OF r] by (simp add: kebabToRallySpecialCase_def)
  moreover have "\<not> startsWith n ''_''" "\<not> startsWith n ''c_''"
    using n upper_not_marker[OF u] by simp_all
  ultimately show ?thesis by simp
qed

subsection \<open>Records\<close>

lemma not_object_rallyToMcp: "\<not> is_object d \<Longrightarrow> rallyToMcp d = d"
  by (cases d) simp_all

lemma not_object_mcpToRally: "\<not> is_object d \<Longrightarrow> mcpToRally d = d"
  by (cases d) simp_all

lemma object_entries_single: "object_entries [p] = [p]"
  by (simp add: object_entries_def)

lemma rallyToMcp_single:
  "rallyToMcp (JObj [(key, v)]) = JObj [(rallyFieldToMcp key, rallyToMcp v)]"
  by (cases "is_object v")
     (simp_all add: not_object_rallyToMcp object_entries_single rallyFieldToMcp_not_proto)

lemma mcpToRally_single:
  "mcpFieldToRally key \<noteq> ''__proto__'' \<Longrightarrow>
   mcpToRally (JObj [(key, v)]) = JObj [(mcpFieldToRally key, mcpToRally v)]"
  by (cases "is_object v")
     (simp_all add: not_object_mcpToRally object_entries_single)

text \<open>
  The one key that is lost on the way out: \<^verbatim>\<open>metadata-_proto__\<close> becomes \<^verbatim>\<open>__proto__\<close>,
  and assigning to that name creates no property.
\<close>

lemma mcpToRally_proto:
  "mcpFieldToRally ''metadata-_proto__'' = ''__proto__''
   \<and> mcpToRally (JObj [(''metadata-_proto__'', JNum 1)]) = JObj []"
proof -
  have "mcpFieldToRally ''metadata-_proto__'' = ''__proto__''" by code_simp
  then show ?thesis by (simp add: object_entries_single)
qed

text \<open>
  After \<^verbatim>\<open>null\<close> was assigned to that name the object under construction is bare, and the
  next assignment to the name creates a property.
\<close>

lemma mcpToRally_proto_null:
  "mcpFieldToRally ''__PROTO__'' = ''__proto__''
   \<and> mcpToRally (JObj [(''__PROTO__'', JNull), (''metadata-_proto__'', JNum 5)])
       = JBare [(''__proto__'', JNum 5)]"
  by code_simp

text \<open>On the way in no key becomes \<^verbatim>\<open>__proto__\<close>, so the result is never bare.\<close>

lemma foldl_assign_plain:
  "(\<And>key. f key \<noteq> ''__proto__'')
   \<Longrightarrow> \<exists>ps. foldl (\<lambda>transformed (key, v). assign_prop transformed (f key) (g v)) (JObj qs) entries
            = JObj ps"
  by (induction entries arbitrary: qs) auto

lemma rallyToMcp_plain:
  "(\<exists>ps. rallyToMcp (JObj obj) = JObj ps) \<and> (\<exists>ps. rallyToMcp (JBare obj) = JObj ps)"
  using foldl_assign_plain[of rallyFieldToMcp "\<lambda>v. if is_object v then rallyToMcp v else v" "[]"
          "object_entries obj"]
  by (simp add: rallyFieldToMcp_not_proto)

lemma rallyToMcp_wrap:
  "rallyToMcp (wrap keys d) = wrap (map rallyFieldToMcp keys) (rallyToMcp d)"
  by (induction keys) (simp_all add: wrap_def rallyToMcp_single del: rallyToMcp.simps)

lemma mcpToRally_wrap:
  "list_all (\<lambda>key. mcpFieldToRally key \<noteq> ''__proto__'') keys \<Longrightarrow>
   mcpToRally (wrap keys d) = wrap (map mcpFieldToRally keys) (mcpToRally d)"
  by (induction keys) (simp_all add: wrap_def mcpToRally_single del: mcpToRally.simps)

subsection \<open>The claims about the transformer\<close>

text \<open>
  C2, as the code has it.  The claim fails at \<^verbatim>\<open>todo\<close>, a key of the table
  (\<^verbatim>\<open>todo\<close> \<open>\<rightarrow>\<close> \<^verbatim>\<open>ToDo\<close> \<open>\<rightarrow>\<close> \<^verbatim>\<open>to-do\<close>), at \<^verbatim>\<open>CustomPriority\<close>, a name of the table
  (\<^verbatim>\<open>CustomPriority\<close> \<open>\<rightarrow>\<close> \<^verbatim>\<open>custom-priority\<close> \<open>\<rightarrow>\<close> \<^verbatim>\<open>c_Priority\<close>), and at the
  unprefixed PascalCase name \<^verbatim>\<open>MyHTMLField\<close>, which comes back as \<^verbatim>\<open>MyHtmlField\<close>.
\<close>

theorem round_trip_counterexample:
  "map_of specialCases ''todo'' = Some ''ToDo''
   \<and> rallyFieldToMcp (mcpFieldToRally ''todo'') = ''to-do''
   \<and> rallyFieldToMcp (mcpFieldToRally ''todo'') \<noteq> ''todo''
   \<and> mcpFieldToRally (rallyFieldToMcp ''CustomPriority'') = ''c_Priority''
   \<and> mcpFieldToRally (rallyFieldToMcp ''CustomPriority'') \<noteq> ''CustomPriority''
   \<and> mcpFieldToRally (rallyFieldToMcp ''MyHTMLField'') = ''MyHtmlField''
   \<and> mcpFieldToRally (rallyFieldToMcp ''MyHTMLField'') \<noteq> ''MyHTMLField''"
  by code_simp

text \<open>
  C2, amended.  For every supported external name \<open>n\<close> (a name the table gives, or a
  regular name that the table and \<^verbatim>\<open>Object.prototype\<close> do not intercept), the metadata
  name \<^verbatim>\<open>_n\<close> and the custom name \<^verbatim>\<open>c_n\<close> come back unchanged from
  \<^verbatim>\<open>rallyFieldToMcp\<close> followed by \<^verbatim>\<open>mcpFieldToRally\<close>, and so does \<open>n\<close> itself unless its
  kebab form starts with \<^verbatim>\<open>metadata-\<close> or \<^verbatim>\<open>custom-\<close>.  In the other direction every key
  of the table except \<^verbatim>\<open>todo\<close> and \<^verbatim>\<open>apiintegration\<close> comes back unchanged from
  \<^verbatim>\<open>mcpFieldToRally\<close> followed by \<^verbatim>\<open>rallyFieldToMcp\<close>.
\<close>

theorem round_trip_supported_names:
  "(supported_external n \<longrightarrow>
      mcpFieldToRally (rallyFieldToMcp (''_'' @ n)) = ''_'' @ n
      \<and> mcpFieldToRally (rallyFieldToMcp (''c_'' @ n)) = ''c_'' @ n
      \<and> (\<not> startsWith (camelToKebab n) ''metadata-'' \<and> \<not> startsWith (camelToKebab n) ''custom-''
           \<longrightarrow> mcpFieldToRally (rallyFieldToMcp n) = n))
   \<and> list_all (\<lambda>k. rallyFieldToMcp (mcpFieldToRally k) = k)
        (filter (\<lambda>k. k \<noteq> ''todo'' \<and> k \<noteq> ''apiintegration'') (map fst specialCases))"
proof -
  have keys: "list_all (\<lambda>k. rallyFieldToMcp (mcpFieldToRally k) = k)
        (filter (\<lambda>k. k \<noteq> ''todo'' \<and> k \<noteq> ''apiintegration'') (map fst specialCases))"
    by code_simp
  have names: "mcpFieldToRally (rallyFieldToMcp (''_'' @ n)) = ''_'' @ n
      \<and> mcpFieldToRally (rallyFieldToMcp (''c_'' @ n)) = ''c_'' @ n
      \<and> (\<not> startsWith (camelToKebab n) ''metadata-'' \<and> \<not> startsWith (camelToKebab n) ''custom-''
           \<longrightarrow> mcpFieldToRally (rallyFieldToMcp n) = n)"
    if "supported_external n"
  proof -
    from supported_external_core[OF that]
    have core: "kebabToRallySpecialCase (camelToKebab n) = n"
      and plain: "\<not> startsWith n ''_''" "\<not> startsWith n ''c_''" by simp_all
    have "rallyFieldToMcp n = camelToKebab n"
      using plain by (simp add: rallyFieldToMcp_def)
    then have "mcpFieldToRally (rallyFieldToMcp n) = n"
      if "\<not> startsWith (camelToKebab n) ''metadata-''" "\<not> startsWith (camelToKebab n) ''custom-''"
      using that core by (simp add: mcpFieldToRally_def)
    then show ?thesis
      using core
      by (simp add: rallyFieldToMcp_metadata rallyFieldToMcp_custom mcpFieldToRally_metadata
            mcpFieldToRally_custom del: append.simps)
  qed
  from keys names show ?thesis by blast
qed

theorem round_trip_supported_names_witness:
  "supported_external ''UserName''
   \<and> mcpFieldToRally (rallyFieldToMcp ''_UserName'') = ''_UserName''
   \<and> mcpFieldToRally (rallyFieldToMcp ''c_UserName'') = ''c_UserName''
   \<and> mcpFieldToRally (rallyFieldToMcp ''UserName'') = ''UserName''"
proof -
  have s: "supported_external ''UserName''" by code_simp
  have k: "\<not> startsWith (camelToKebab ''UserName'') ''metadata-''
           \<and> \<not> startsWith (camelToKebab ''UserName'') ''custom-''"
    by code_simp
  show ?thesis
    using s k round_trip_supported_names[of "''UserName''"] by simp
qed

text \<open>
  The edge cases on the pure model: primitives, empty structures, arrays of anything, and
  nesting of any depth.
\<close>

lemma transformer_edge_cases:
  "rallyToMcp JNull = JNull \<and> rallyToMcp JUndefined = JUndefined
   \<and> rallyToMcp (JNum i) = JNum i \<and> rallyToMcp (JStr s) = JStr s
   \<and> rallyToMcp (JBool b) = JBool b
   \<and> mcpToRally JNull = JNull \<and> mcpToRally JUndefined = JUndefined
   \<and> mcpToRally (JNum i) = JNum i \<and> mcpToRally (JStr s) = JStr s
   \<and> mcpToRally (JBool b) = JBool b
   \<and> rallyToMcp (JObj []) = JObj [] \<and> rallyToMcp (JArr []) = JArr []
   \<and> mcpToRally (JObj []) = JObj [] \<and> mcpToRally (JArr []) = JArr []
   \<and> rallyToMcp (JArr items) = JArr (map rallyToMcp items)
   \<and> mcpToRally (JArr items) = JArr (map mcpToRally items)
   \<and> rallyToMcp (wrap keys d) = wrap (map rallyFieldToMcp keys) (rallyToMcp d)"
  by (simp add: rallyToMcp_wrap object_entries_def)

text \<open>
  C7.  The three examples, and the general rule: a leading \<^verbatim>\<open>_\<close> becomes \<^verbatim>\<open>metadata-\<close>
  and a leading \<^verbatim>\<open>c_\<close> becomes \<^verbatim>\<open>custom-\<close> whatever follows; back, \<^verbatim>\<open>metadata-\<close>
  becomes \<^verbatim>\<open>_\<close> and \<^verbatim>\<open>custom-\<close> becomes \<^verbatim>\<open>c_\<close>, so a prefixed name keeps its marker
  on the way there and back.  The prefix is looked at before the table:
  \<^verbatim>\<open>custom-priority\<close> is a key of the table, yet it becomes \<^verbatim>\<open>c_Priority\<close>.
\<close>

theorem prefix_handling:
  "rallyToMcp (JObj [(''_ref'', JStr ''X'')]) = JObj [(''metadata-ref'', JStr ''X'')]
   \<and> rallyToMcp (JObj [(''c_Foo'', JStr ''Y'')]) = JObj [(''custom-foo'', JStr ''Y'')]
   \<and> mcpToRally (JObj [(''metadata-ref-object-uuid'', JStr ''Z'')])
       = JObj [(''_refObjectUUID'', JStr ''Z'')]
   \<and> rallyFieldToMcp (''_'' @ name) = ''metadata-'' @ camelToKebab name
   \<and> rallyFieldToMcp (''c_'' @ name) = ''custom-'' @ camelToKebab name
   \<and> mcpFieldToRally (''metadata-'' @ name) = ''_'' @ kebabToRallySpecialCase name
   \<and> mcpFieldToRally (''custom-'' @ name) = ''c_'' @ kebabToRallySpecialCase name
   \<and> mcpFieldToRally (rallyFieldToMcp (''_'' @ name))
       = ''_'' @ kebabToRallySpecialCase (camelToKebab name)
   \<and> mcpFieldToRally (rallyFieldToMcp (''c_'' @ name))
       = ''c_'' @ kebabToRallySpecialCase (camelToKebab name)
   \<and> map_of specialCases ''custom-priority'' = Some ''CustomPriority''
   \<and> mcpFieldToRally ''custom-priority'' = ''c_Priority''"
proof -
  have a: "rallyFieldToMcp ''_ref'' = ''metadata-ref''" by code_simp
  have b: "rallyFieldToMcp ''c_Foo'' = ''custom-foo''" by code_simp
  have c: "mcpFieldToRally ''metadata-ref-object-uuid'' = ''_refObjectUUID''" by code_simp
  have d: "map_of specialCases ''custom-priority'' = Some ''CustomPriority''" by code_simp
  have e: "mcpFieldToRally ''custom-priority'' = ''c_Priority''" by code_simp
  have f: "rallyToMcp (JObj [(''_ref'', JStr ''X'')]) = JObj [(''metadata-ref'', JStr ''X'')]"
          "rallyToMcp (JObj [(''c_Foo'', JStr ''Y'')]) = JObj [(''custom-foo'', JStr ''Y'')]"
          "mcpToRally (JObj [(''metadata-ref-object-uuid'', JStr ''Z'')])
             = JObj [(''_refObjectUUID'', JStr ''Z'')]"
    by (simp_all add: rallyToMcp_single mcpToRally_single a b c
          del: rallyToMcp.simps(2) mcpToRally.simps(2))
  show ?thesis
    using d e f
    by (simp add: rallyFieldToMcp_metadata rallyFieldToMcp_custom mcpFieldToRally_metadata
          mcpFieldToRally_custom del: append.simps rallyToMcp.simps mcpToRally.simps)
qed

text \<open>
  C8.  \<^verbatim>\<open>APIIntegration\<close> becomes \<^verbatim>\<open>api-integration\<close>: the first replacement splits the
  run of capitals before its last letter, the second finds nothing more to split, and
  \<^verbatim>\<open>camelToKebab\<close> applies them in that order.  Back, \<^verbatim>\<open>api-integration\<close> becomes
  \<^verbatim>\<open>APIIntegration\<close> because the table says so; the generic reconstruction alone would
  give \<^verbatim>\<open>ApiIntegration\<close>.
\<close>

theorem acronym_handling:
  "rallyFieldToMcp ''APIIntegration'' = ''api-integration''
   \<and> replace_acronym ''APIIntegration'' = ''API-Integration''
   \<and> replace_boundary ''API-Integration'' = ''API-Integration''
   \<and> camelToKebab str = toLowerCase (replace_boundary (replace_acronym str))
   \<and> mcpFieldToRally ''api-integration'' = ''APIIntegration''
   \<and> map_of specialCases ''api-integration'' = Some ''APIIntegration''
   \<and> kebabToPascal ''api-integration'' = ''ApiIntegration''"
proof -
  have "rallyFieldToMcp ''APIIntegration'' = ''api-integration''" by code_simp
  moreover have "replace_acronym ''APIIntegration'' = ''API-Integration''" by code_simp
  moreover have "replace_boundary ''API-Integration'' = ''API-Integration''" by code_simp
  moreover have "mcpFieldToRally ''api-integration'' = ''APIIntegration''" by code_simp
  moreover have "map_of specialCases ''api-integration'' = Some ''APIIntegration''" by code_simp
  moreover have "kebabToPascal ''api-integration'' = ''ApiIntegration''" by code_simp
  ultimately show ?thesis by (simp add: camelToKebab_def)
qed

text \<open>
  C10.  \<^verbatim>\<open>mcpFieldToRally\<close> is not injective: \<^verbatim>\<open>todo\<close> and \<^verbatim>\<open>to-do\<close> both become
  \<^verbatim>\<open>ToDo\<close>, \<^verbatim>\<open>apiintegration\<close> and \<^verbatim>\<open>api-integration\<close> both become
  \<^verbatim>\<open>APIIntegration\<close>, and so two different internal records have the same external
  record.
\<close>

theorem mcpFieldToRally_not_injective:
  "mcpFieldToRally ''todo'' = ''ToDo'' \<and> mcpFieldToRally ''to-do'' = ''ToDo''
   \<and> mcpFieldToRally ''apiintegration'' = ''APIIntegration''
   \<and> mcpFieldToRally ''api-integration'' = ''APIIntegration''
   \<and> JObj [(''todo'', v)] \<noteq> JObj [(''to-do'', v)]
   \<and> mcpToRally (JObj [(''todo'', v)]) = mcpToRally (JObj [(''to-do'', v)])
   \<and> JObj [(''apiintegration'', v)] \<noteq> JObj [(''api-integration'', v)]
   \<and> mcpToRally (JObj [(''apiintegration'', v)]) = mcpToRally (JObj [(''api-integration'', v)])"
proof -
  have a: "mcpFieldToRally ''todo'' = ''ToDo''" by code_simp
  have b: "mcpFieldToRally ''to-do'' = ''ToDo''" by code_simp
  have c: "mcpFieldToRally ''apiintegration'' = ''APIIntegration''" by code_simp
  have d: "mcpFieldToRally ''api-integration'' = ''APIIntegration''" by code_simp
  show ?thesis
    by (simp add: a b c d mcpToRally_single del: mcpToRally.simps)
qed

section \<open>Properties of the transformer in the store\<close>

lemma unchanged_refl: "unchanged h h"
  by (simp add: unchanged_def)

lemma unchanged_trans: "unchanged h1 h2 \<Longrightarrow> unchanged h2 h3 \<Longrightarrow> unchanged h1 h3"
  unfolding unchanged_def
  by (metis append_eq_conv_conj append_take_drop_id append.assoc)

lemma unchanged_append: "unchanged h (h @ new)"
  by (simp add: unchanged_def)

lemma unchanged_length: "unchanged h h' \<Longrightarrow> length h \<le> length h'"
proof -
  assume "unchanged h h'"
  then have "length (take (length h) h') = length h" by (simp add: unchanged_def)
  then show ?thesis by simp
qed

lemma unchanged_nth: "unchanged h h' \<Longrightarrow> a < length h \<Longrightarrow> h' ! a = h ! a"
  unfolding unchanged_def by (metis nth_take)

lemma unchanged_update: "unchanged h0 h \<Longrightarrow> length h0 \<le> t \<Longrightarrow> unchanged h0 (h[t := x])"
  by (simp add: unchanged_def)

lemma unchanged_push: "unchanged h0 h \<Longrightarrow> length h0 \<le> t \<Longrightarrow> unchanged h0 (push h t v)"
  by (simp add: push_def unchanged_update split: hobj.splits)

lemma unchanged_assign:
  "unchanged h0 h \<Longrightarrow> length h0 \<le> t \<Longrightarrow> unchanged h0 (assign h t key v)"
  by (simp add: assign_def unchanged_update split: hobj.splits)

text \<open>The objects that were there before a call are the same after it.\<close>

lemma transform_store_unchanged:
  "transform_store f n h v = Some (v', h') \<Longrightarrow> unchanged h h'"
  "map_items f n h t items = Some h' \<Longrightarrow> unchanged h0 h \<Longrightarrow> length h0 \<le> t \<Longrightarrow> unchanged h0 h'"
  "copy_entries f n h t entries = Some h' \<Longrightarrow> unchanged h0 h \<Longrightarrow> length h0 \<le> t
     \<Longrightarrow> unchanged h0 h'"
proof (induction f n h v and f n h t items and f n h t entries
       arbitrary: v' h' and h' h0 and h' h0
       rule: transform_store_map_items_copy_entries.induct)
  case (1 f h v)
  then show ?case by simp
next
  case (2 f n h a)
  note run = 2(4)
  from run have a: "a < length h" by (auto split: if_splits)
  show ?case
  proof (cases "h ! a")
    case (Arr items)
    with run obtain h1 where m: "map_items f n (h @ [Arr []]) (length h) items = Some h1"
      and h': "h' = h1"
      by (auto split: if_splits option.splits)
    from 2(1)[OF a Arr m unchanged_append] h' show ?thesis by simp
  next
    case (Obj obj)
    with run obtain h1
      where m: "copy_entries f n (h @ [Obj []]) (length h) (object_entries obj) = Some h1"
      and h': "h' = h1"
      by (auto split: if_splits option.splits)
    from 2(2)[OF a Obj m unchanged_append] h' show ?thesis by simp
  next
    case (Bare obj)
    with run obtain h1
      where m: "copy_entries f n (h @ [Obj []]) (length h) (object_entries obj) = Some h1"
      and h': "h' = h1"
      by (auto split: if_splits option.splits)
    from 2(3)[OF a Bare m unchanged_append] h' show ?thesis by simp
  qed
next
  case (5 f n h t item items)
  from 5(3) obtain v h1 where tr: "transform_store f n h item = Some (v, h1)"
    and rest: "map_items f n (push h1 t v) t items = Some h'"
    by (auto split: option.splits)
  from 5(1)[OF tr] have "unchanged h h1" .
  with 5(4) have "unchanged h0 h1" by (rule unchanged_trans)
  then have "unchanged h0 (push h1 t v)" using 5(5) by (rule unchanged_push)
  from 5(2)[OF tr refl rest this 5(5)] show ?case .
next
  case (7 f n h t key v entries)
  from 7(3) obtain v1 h1
    where tr: "(if is_ref v then transform_store f n h v else Some (v, h)) = Some (v1, h1)"
    and rest: "copy_entries f n (assign h1 t (f key) v1) t entries = Some h'"
    by (auto split: option.splits)
  have "unchanged h h1"
  proof (cases "is_ref v")
    case True
    with tr 7(1) show ?thesis by simp
  next
    case False
    with tr show ?thesis by (simp add: unchanged_refl)
  qed
  with 7(4) have "unchanged h0 h1" by (rule unchanged_trans)
  then have "unchanged h0 (assign h1 t (f key) v1)" using 7(5) by (rule unchanged_assign)
  from 7(2)[OF tr refl rest this 7(5)] show ?case .
qed (simp_all add: unchanged_refl)


text \<open>A record that fits keeps fitting when the store grows.\<close>

lemma fits_unchanged: "fits n h v \<Longrightarrow> unchanged h h' \<Longrightarrow> fits n h' v"
proof (induction n h v rule: fits.induct)
  case (1 h v)
  then show ?case by simp
next
  case (2 n h a)
  note fit = 2(4) and grown = 2(5)
  from fit have a: "a < length h" by simp
  with grown have a': "a < length h'" and same: "h' ! a = h ! a"
    using unchanged_length unchanged_nth by fastforce+
  show ?case
  proof (cases "h ! a")
    case (Arr items)
    with fit have "list_all (fits n h) items" by simp
    with 2(1)[OF Arr _ _ grown] have "list_all (fits n h') items"
      by (simp add: list_all_iff)
    with a' same Arr show ?thesis by simp
  next
    case (Obj obj)
    with fit have "list_all (\<lambda>p. if is_ref (snd p) then fits n h (snd p) else True) obj"
      by simp
    with 2(2)[OF Obj _ _ _ grown]
    have "list_all (\<lambda>p. if is_ref (snd p) then fits n h' (snd p) else True) obj"
      by (simp add: list_all_iff)
    with a' same Obj show ?thesis by simp
  next
    case (Bare obj)
    with fit have "list_all (\<lambda>p. if is_ref (snd p) then fits n h (snd p) else True) obj"
      by simp
    with 2(3)[OF Bare _ _ _ grown]
    have "list_all (\<lambda>p. if is_ref (snd p) then fits n h' (snd p) else True) obj"
      by (simp add: list_all_iff)
    with a' same Bare show ?thesis by simp
  qed
qed simp_all

text \<open>On a record that fits, the call returns.\<close>

lemma transform_store_returns:
  "fits n h v \<Longrightarrow> transform_store f n h v \<noteq> None"
  "list_all (fits n h0) items \<Longrightarrow> unchanged h0 h \<Longrightarrow> length h0 \<le> t
     \<Longrightarrow> map_items f n h t items \<noteq> None"
  "list_all (\<lambda>p. if is_ref (snd p) then fits n h0 (snd p) else True) entries
     \<Longrightarrow> unchanged h0 h \<Longrightarrow> length h0 \<le> t \<Longrightarrow> copy_entries f n h t entries \<noteq> None"
proof (induction f n h v and f n h t items and f n h t entries
       arbitrary: and h0 and h0
       rule: transform_store_map_items_copy_entries.induct)
  case (1 f h v)
  then show ?case by simp
next
  case (2 f n h a)
  note fit = 2(4)
  from fit have a: "a < length h" by simp
  show ?case
  proof (cases "h ! a")
    case (Arr items)
    with fit have "list_all (fits n h) items" by simp
    from 2(1)[OF a Arr this unchanged_append] a Arr show ?thesis by auto
  next
    case (Obj obj)
    with fit have "list_all (\<lambda>p. if is_ref (snd p) then fits n h (snd p) else True) obj"
      by simp
    then have "list_all (\<lambda>p. if is_ref (snd p) then fits n h (snd p) else True)
                 (object_entries obj)"
      by (simp add: list_all_iff)
    from 2(2)[OF a Obj this unchanged_append] a Obj show ?thesis by auto
  next
    case (Bare obj)
    with fit have "list_all (\<lambda>p. if is_ref (snd p) then fits n h (snd p) else True) obj"
      by simp
    then have "list_all (\<lambda>p. if is_ref (snd p) then fits n h (snd p) else True)
                 (object_entries obj)"
      by (simp add: list_all_iff)
    from 2(3)[OF a Bare this unchanged_append] a Bare show ?thesis by auto
  qed
next
  case (5 f n h t item items)
  from 5(3) have item: "fits n h0 item" and items: "list_all (fits n h0) items" by simp_all
  from item 5(4) have "fits n h item" by (rule fits_unchanged)
  with 5(1) obtain v h1 where tr: "transform_store f n h item = Some (v, h1)" by fastforce
  then have "unchanged h h1" by (rule transform_store_unchanged(1))
  with 5(4) have "unchanged h0 h1" by (rule unchanged_trans)
  then have "unchanged h0 (push h1 t v)" using 5(5) by (rule unchanged_push)
  from 5(2)[OF tr refl items this 5(5)] tr show ?case by simp
next
  case (7 f n h t key v entries)
  from 7(3) have v: "if is_ref v then fits n h0 v else True"
    and entries: "list_all (\<lambda>p. if is_ref (snd p) then fits n h0 (snd p) else True) entries"
    by (simp_all split: if_splits)
  obtain v1 h1
    where tr: "(if is_ref v then transform_store f n h v else Some (v, h)) = Some (v1, h1)"
      and u: "unchanged h h1"
  proof (cases "is_ref v")
    case True
    with v 7(4) have "fits n h v" using fits_unchanged by simp
    with 7(1)[OF True] obtain v1 h1 where "transform_store f n h v = Some (v1, h1)"
      by fastforce
    with True that transform_store_unchanged(1) show ?thesis by simp
  next
    case False
    with that unchanged_refl show ?thesis by simp
  qed
  from u 7(4) have "unchanged h0 h1" using unchanged_trans by blast
  then have "unchanged h0 (assign h1 t (f key) v1)" using 7(5) by (rule unchanged_assign)
  from 7(2)[OF tr refl entries this 7(5)] tr show ?case by simp
qed simp_all

subsection \<open>The store model computes what the functions on records compute\<close>

lemma represents_from_primitive:
  "\<not> is_object j \<Longrightarrow> represents_from b h v j \<Longrightarrow> represents_from b' h' v j \<and> \<not> is_ref v"
  by (cases j) auto

lemma represents_from_object:
  "is_object j \<Longrightarrow> represents_from b h v j \<Longrightarrow> is_ref v"
  by (cases j; cases v) auto

text \<open>Growing the store, or changing it below \<open>b\<close>, does not change what a value represents.\<close>

lemma represents_from_stable:
  "represents_from b h v j \<Longrightarrow> length h \<le> length h'
   \<Longrightarrow> (\<And>a. b \<le> a \<Longrightarrow> a < length h \<Longrightarrow> h' ! a = h ! a)
   \<Longrightarrow> represents_from b h' v j"
proof (induction b h v j rule: represents_from.induct)
  case (6 b h v js)
  then obtain a items where v: "v = VRef a" and a: "b \<le> a" "a < length h"
    and items: "h ! a = Arr items" and all: "list_all2 (represents_from b h) items js"
    by (auto split: hval.splits hobj.splits)
  from all 6(1)[OF v items _ _ _ 6(3,4)]
  have "list_all2 (represents_from b h') items js"
    by (auto simp: list_all2_conv_all_nth)
  moreover have "h' ! a = h ! a" "a < length h'" using a 6(3,4) by auto
  ultimately show ?case using v a items by simp
next
  case (7 b h v ps)
  then obtain a obj where v: "v = VRef a" and a: "b \<le> a" "a < length h"
    and obj: "h ! a = Obj obj"
    and all: "list_all2 (\<lambda>e p. fst e = fst p \<and> represents_from b h (snd e) (snd p)) obj ps"
    by (auto split: hval.splits hobj.splits)
  from all 7(1)[OF v obj _ _ _ 7(3,4)]
  have "list_all2 (\<lambda>e p. fst e = fst p \<and> represents_from b h' (snd e) (snd p)) obj ps"
    by (auto simp: list_all2_conv_all_nth)
  moreover have "h' ! a = h ! a" "a < length h'" using a 7(3,4) by auto
  ultimately show ?case using v a obj by simp
next
  case (8 b h v ps)
  then obtain a obj where v: "v = VRef a" and a: "b \<le> a" "a < length h"
    and obj: "h ! a = Bare obj"
    and all: "list_all2 (\<lambda>e p. fst e = fst p \<and> represents_from b h (snd e) (snd p)) obj ps"
    by (auto split: hval.splits hobj.splits)
  from all 8(1)[OF v obj _ _ _ 8(3,4)]
  have "list_all2 (\<lambda>e p. fst e = fst p \<and> represents_from b h' (snd e) (snd p)) obj ps"
    by (auto simp: list_all2_conv_all_nth)
  moreover have "h' ! a = h ! a" "a < length h'" using a 8(3,4) by auto
  ultimately show ?case using v a obj by simp
qed simp_all

lemma represents_from_unchanged:
  "represents_from b h v j \<Longrightarrow> unchanged h h' \<Longrightarrow> represents_from b h' v j"
  using unchanged_length unchanged_nth by (auto intro: represents_from_stable)

lemma represents_from_update:
  "represents_from b h v j \<Longrightarrow> t < b \<Longrightarrow> represents_from b (h[t := x]) v j"
  by (rule represents_from_stable) auto

lemma represents_from_lower:
  "represents_from b h v j \<Longrightarrow> b' \<le> b \<Longrightarrow> represents_from b' h v j"
proof (induction b h v j rule: represents_from.induct)
  case (6 b h v js)
  then obtain a items where v: "v = VRef a" and a: "b \<le> a" "a < length h"
    and items: "h ! a = Arr items" and all: "list_all2 (represents_from b h) items js"
    by (auto split: hval.splits hobj.splits)
  from all 6(1)[OF v items] 6(3)
  have "list_all2 (represents_from b' h) items js"
    by (auto simp: list_all2_conv_all_nth)
  then show ?case using v a items 6(3) by simp
next
  case (7 b h v ps)
  then obtain a obj where v: "v = VRef a" and a: "b \<le> a" "a < length h"
    and obj: "h ! a = Obj obj"
    and all: "list_all2 (\<lambda>e p. fst e = fst p \<and> represents_from b h (snd e) (snd p)) obj ps"
    by (auto split: hval.splits hobj.splits)
  from all 7(1)[OF v obj] 7(3)
  have "list_all2 (\<lambda>e p. fst e = fst p \<and> represents_from b' h (snd e) (snd p)) obj ps"
    by (auto simp: list_all2_conv_all_nth)
  then show ?case using v a obj 7(3) by simp
next
  case (8 b h v ps)
  then obtain a obj where v: "v = VRef a" and a: "b \<le> a" "a < length h"
    and obj: "h ! a = Bare obj"
    and all: "list_all2 (\<lambda>e p. fst e = fst p \<and> represents_from b h (snd e) (snd p)) obj ps"
    by (auto split: hval.splits hobj.splits)
  from all 8(1)[OF v obj] 8(3)
  have "list_all2 (\<lambda>e p. fst e = fst p \<and> represents_from b' h (snd e) (snd p)) obj ps"
    by (auto simp: list_all2_conv_all_nth)
  then show ?case using v a obj 8(3) by simp
qed simp_all

text \<open>Entries that correspond keep corresponding under \<^verbatim>\<open>Object.entries\<close> and under assignment.\<close>

lemma list_all2_filter:
  "list_all2 R xs ys \<Longrightarrow> (\<And>x y. R x y \<Longrightarrow> P x = Q y)
   \<Longrightarrow> list_all2 R (filter P xs) (filter Q ys)"
  by (induction rule: list_all2_induct) auto

lemma list_all2_insort_key:
  "list_all2 R xs ys \<Longrightarrow> R x y \<Longrightarrow> (\<And>x y. R x y \<Longrightarrow> f x = g y)
   \<Longrightarrow> list_all2 R (insort_key f x xs) (insort_key g y ys)"
  by (induction rule: list_all2_induct) auto

lemma list_all2_sort_key:
  "list_all2 R xs ys \<Longrightarrow> (\<And>x y. R x y \<Longrightarrow> f x = g y)
   \<Longrightarrow> list_all2 R (sort_key f xs) (sort_key g ys)"
  by (induction rule: list_all2_induct) (auto intro: list_all2_insort_key)

lemma list_all2_object_entries:
  "list_all2 R xs ys \<Longrightarrow> (\<And>x y. R x y \<Longrightarrow> fst x = fst y)
   \<Longrightarrow> list_all2 R (object_entries xs) (object_entries ys)"
  unfolding object_entries_def
  by (intro list_all2_appendI list_all2_sort_key list_all2_filter) auto

lemma list_all2_set_prop:
  "list_all2 (\<lambda>e p. fst e = fst p \<and> R (snd e) (snd p)) xs ys \<Longrightarrow> R v w
   \<Longrightarrow> list_all2 (\<lambda>e p. fst e = fst p \<and> R (snd e) (snd p)) (set_prop xs key v)
         (set_prop ys key w)"
  by (induction rule: list_all2_induct) auto

lemma represents_from_is_ref:
  "represents_from b h v j \<Longrightarrow> is_ref v = is_object j"
  by (cases j; cases v) auto

lemma represents_from_value:
  "represents_from b h v j \<Longrightarrow> \<not> is_ref v \<Longrightarrow> (\<And>d. \<not> is_object d \<Longrightarrow> T d = d)
   \<Longrightarrow> represents_from b' h' v (T j)"
  by (cases j; cases v) auto

lemma represents_from_frame:
  "represents_from (Suc t) h v j \<Longrightarrow> unchanged h h1
   \<Longrightarrow> represents_from (Suc t) (h1[t := x]) v j"
  by (simp add: represents_from_update represents_from_unchanged)

lemma transform_store_primitive:
  "transform_store f (Suc n) h v = Some (v', h') \<Longrightarrow> represents_from 0 h v j \<Longrightarrow> \<not> is_ref v
   \<Longrightarrow> (\<And>d. \<not> is_object d \<Longrightarrow> T d = d) \<Longrightarrow> represents_from (length h) h' v' (T j)"
  by (cases v) (auto elim: represents_from_value)

text \<open>A value makes the object bare in the store exactly when it does on records.\<close>

lemma represents_from_makes_bare:
  "represents_from b h v w
   \<Longrightarrow> makes_bare h v = (case w of JNull \<Rightarrow> True | JBare ps \<Rightarrow> True | _ \<Rightarrow> False)"
  by (cases w; cases v) (auto simp: makes_bare_def split: hobj.splits)

text \<open>
  The object under construction: what it is at the start and at the end of the loop, and
  that an assignment in the store is the assignment on records.
\<close>

lemma under_construction_start:
  "under_construction b (h @ [Obj []]) (length h) (JObj [])"
  by (simp add: under_construction_def)

lemma under_construction_finish:
  "under_construction (Suc t) h t j \<Longrightarrow> represents_from t h (VRef t) j"
proof -
  assume u: "under_construction (Suc t) h t j"
  have lower: "list_all2 (\<lambda>e p. fst e = fst p \<and> represents_from t h (snd e) (snd p)) obj ps"
    if "list_all2 (\<lambda>e p. fst e = fst p \<and> represents_from (Suc t) h (snd e) (snd p)) obj ps"
    for obj ps
    by (rule list_all2_mono[OF that]) (auto intro: represents_from_lower)
  from u lower show ?thesis
    by (cases j; cases "h ! t") (auto simp: under_construction_def)
qed

lemma under_construction_unchanged:
  "under_construction b h t j \<Longrightarrow> unchanged h h1 \<Longrightarrow> under_construction b h1 t j"
proof -
  assume u: "under_construction b h t j" and g: "unchanged h h1"
  from u have t: "t < length h" by (simp add: under_construction_def)
  with g have t1: "t < length h1" and same: "h1 ! t = h ! t"
    using unchanged_length unchanged_nth by fastforce+
  have grown: "list_all2 (\<lambda>e p. fst e = fst p \<and> represents_from b h1 (snd e) (snd p)) obj ps"
    if "list_all2 (\<lambda>e p. fst e = fst p \<and> represents_from b h (snd e) (snd p)) obj ps"
    for obj ps
    by (rule list_all2_mono[OF that]) (auto intro: represents_from_unchanged[OF _ g])
  from u t1 same grown show ?thesis
    by (cases j; cases "h ! t") (auto simp: under_construction_def)
qed

lemma under_construction_assign:
  assumes u: "under_construction (Suc t) h t acc"
    and v: "represents_from (Suc t) h v w"
  shows "under_construction (Suc t) (assign h t key v) t (assign_prop acc key w)"
proof -
  from u have t: "t < length h" by (simp add: under_construction_def)
  have moved: "list_all2 (\<lambda>e p. fst e = fst p \<and> represents_from (Suc t) (h[t := x]) (snd e) (snd p))
                 obj ps"
    if "list_all2 (\<lambda>e p. fst e = fst p \<and> represents_from (Suc t) h (snd e) (snd p)) obj ps"
    for obj ps x
    by (rule list_all2_mono[OF that]) (auto intro: represents_from_update)
  have set: "list_all2 (\<lambda>e p. fst e = fst p \<and> represents_from (Suc t) (h[t := x]) (snd e) (snd p))
               (set_prop obj key v) (set_prop ps key w)"
    if "list_all2 (\<lambda>e p. fst e = fst p \<and> represents_from (Suc t) h (snd e) (snd p)) obj ps"
    for obj ps x
    using moved[OF that] v by (intro list_all2_set_prop) (auto intro: represents_from_update)
  note bare = represents_from_makes_bare[OF v]
  show ?thesis
  proof (cases acc)
    case (JObj ps)
    with u obtain obj where obj: "h ! t = Obj obj"
      and all: "list_all2 (\<lambda>e p. fst e = fst p \<and> represents_from (Suc t) h (snd e) (snd p))
                  obj ps"
      by (auto simp: under_construction_def split: hobj.splits)
    show ?thesis
    proof (cases "key = ''__proto__''")
      case True
      show ?thesis
      proof (cases "makes_bare h v")
        case True
        with bare have "assign_prop acc key w = JBare ps"
          using JObj \<open>key = ''__proto__''\<close> by (cases w) simp_all
        moreover from True obj have "assign h t key v = h[t := Bare obj]"
          using \<open>key = ''__proto__''\<close> by (simp add: assign_def)
        ultimately show ?thesis using t moved[OF all]
          by (simp add: under_construction_def)
      next
        case False
        with bare have "assign_prop acc key w = JObj ps"
          using JObj \<open>key = ''__proto__''\<close> by (cases w) simp_all
        moreover from False obj have "assign h t key v = h"
          using \<open>key = ''__proto__''\<close> by (simp add: assign_def)
        ultimately show ?thesis using u JObj by simp
      qed
    next
      case False
      with JObj have "assign_prop acc key w = JObj (set_prop ps key w)" by simp
      moreover from False obj have "assign h t key v = h[t := Obj (set_prop obj key v)]"
        by (simp add: assign_def)
      ultimately show ?thesis using t set[OF all]
        by (simp add: under_construction_def)
    qed
  next
    case (JBare ps)
    with u obtain obj where obj: "h ! t = Bare obj"
      and all: "list_all2 (\<lambda>e p. fst e = fst p \<and> represents_from (Suc t) h (snd e) (snd p))
                  obj ps"
      by (auto simp: under_construction_def split: hobj.splits)
    from JBare have "assign_prop acc key w = JBare (set_prop ps key w)" by simp
    moreover from obj have "assign h t key v = h[t := Bare (set_prop obj key v)]"
      by (simp add: assign_def)
    ultimately show ?thesis using t set[OF all]
      by (simp add: under_construction_def)
  qed (use u in \<open>simp_all add: under_construction_def\<close>)
qed

text \<open>
  The three parts of the traversal, for any function \<open>T\<close> on records that satisfies the
  equations of \<^verbatim>\<open>rallyToMcp\<close> (or of \<^verbatim>\<open>mcpToRally\<close>) with \<open>f\<close> on the keys.  A call returns a
  value that represents \<open>T j\<close> when it was given a value that represents \<open>j\<close>, and everything
  in the result is new.  The loops keep, in the object under construction at \<open>t\<close>, what
  the pure loop has accumulated so far.
\<close>

lemma transform_store_refines:
  fixes T :: "json \<Rightarrow> json"
  assumes TArr: "\<And>items. T (JArr items) = JArr (map T items)"
    and TPrim: "\<And>d. \<not> is_object d \<Longrightarrow> T d = d"
    and TObj: "\<And>obj. T (JObj obj) =
                 foldl (\<lambda>transformed (key, v).
                          assign_prop transformed (f key) (if is_object v then T v else v))
                   (JObj []) (object_entries obj)"
    and TBare: "\<And>obj. T (JBare obj) =
                 foldl (\<lambda>transformed (key, v).
                          assign_prop transformed (f key) (if is_object v then T v else v))
                   (JObj []) (object_entries obj)"
  shows "transform_store f n h v = Some (v', h') \<Longrightarrow> represents_from 0 h v j
         \<Longrightarrow> represents_from (length h) h' v' (T j)"
    and "map_items f n h t items = Some h' \<Longrightarrow> unchanged h0 h \<Longrightarrow> length h0 \<le> t
         \<Longrightarrow> t < length h \<Longrightarrow> h ! t = Arr made
         \<Longrightarrow> list_all2 (represents_from 0 h0) items js
         \<Longrightarrow> list_all2 (represents_from (Suc t) h) made ks
         \<Longrightarrow> t < length h' \<and>
             (\<exists>made'. h' ! t = Arr made'
                \<and> list_all2 (represents_from (Suc t) h') made' (ks @ map T js))"
    and "copy_entries f n h t entries = Some h' \<Longrightarrow> unchanged h0 h \<Longrightarrow> length h0 \<le> t
         \<Longrightarrow> under_construction (Suc t) h t acc
         \<Longrightarrow> list_all2 (\<lambda>e p. fst e = fst p \<and> represents_from 0 h0 (snd e) (snd p)) entries ps
         \<Longrightarrow> under_construction (Suc t) h' t
               (foldl (\<lambda>transformed (key, v).
                         assign_prop transformed (f key) (if is_object v then T v else v))
                  acc ps)"
  using TObj TBare
proof (induction f n h v and f n h t items and f n h t entries
       arbitrary: v' h' j and h' h0 made js ks and h' h0 ps acc
       rule: transform_store_map_items_copy_entries.induct)
  case (1 f h v)
  then show ?case by simp
next
  case (2 f n h a)
  note tr = 2(4) and rep = 2(5) and TObj' = 2(6) and TBare' = 2(7)
  from rep have a: "a < length h" by (cases j) (auto split: hobj.splits)
  show ?case
  proof (cases "h ! a")
    case (Arr items)
    with rep a obtain js where j: "j = JArr js"
      and items: "list_all2 (represents_from 0 h) items js"
      by (cases j) auto
    from tr a Arr have m: "map_items f n (h @ [Arr []]) (length h) items = Some h'"
      and v': "v' = VRef (length h)"
      by (auto split: option.splits)
    have "length h < length h' \<and>
          (\<exists>made'. h' ! length h = Arr made'
             \<and> list_all2 (represents_from (Suc (length h)) h') made' ([] @ map T js))"
      by (rule 2(1)[OF a Arr m unchanged_append _ _ _ items _ TObj' TBare']) simp_all
    then obtain made' where l: "length h < length h'" and d: "h' ! length h = Arr made'"
      and r: "list_all2 (represents_from (Suc (length h)) h') made' (map T js)"
      by auto
    from r have "list_all2 (represents_from (length h) h') made' (map T js)"
      by (rule list_all2_mono) (auto intro: represents_from_lower)
    with l d v' j show ?thesis by (simp add: TArr)
  next
    case (Obj obj)
    with rep a obtain ps where j: "j = JObj ps"
      and entries: "list_all2 (\<lambda>e p. fst e = fst p \<and> represents_from 0 h (snd e) (snd p)) obj ps"
      by (cases j) auto
    from tr a Obj
    have m: "copy_entries f n (h @ [Obj []]) (length h) (object_entries obj) = Some h'"
      and v': "v' = VRef (length h)"
      by (auto split: option.splits)
    from entries
    have sorted: "list_all2 (\<lambda>e p. fst e = fst p \<and> represents_from 0 h (snd e) (snd p))
                    (object_entries obj) (object_entries ps)"
      by (rule list_all2_object_entries) simp
    have "under_construction (Suc (length h)) h' (length h)
            (foldl (\<lambda>transformed (key, v).
                      assign_prop transformed (f key) (if is_object v then T v else v))
               (JObj []) (object_entries ps))"
      by (rule 2(2)[OF a Obj m unchanged_append _ under_construction_start sorted TObj' TBare'])
         simp
    then show ?thesis using v' j by (simp add: TObj' under_construction_finish)
  next
    case (Bare obj)
    with rep a obtain ps where j: "j = JBare ps"
      and entries: "list_all2 (\<lambda>e p. fst e = fst p \<and> represents_from 0 h (snd e) (snd p)) obj ps"
      by (cases j) auto
    from tr a Bare
    have m: "copy_entries f n (h @ [Obj []]) (length h) (object_entries obj) = Some h'"
      and v': "v' = VRef (length h)"
      by (auto split: option.splits)
    from entries
    have sorted: "list_all2 (\<lambda>e p. fst e = fst p \<and> represents_from 0 h (snd e) (snd p))
                    (object_entries obj) (object_entries ps)"
      by (rule list_all2_object_entries) simp
    have "under_construction (Suc (length h)) h' (length h)
            (foldl (\<lambda>transformed (key, v).
                      assign_prop transformed (f key) (if is_object v then T v else v))
               (JObj []) (object_entries ps))"
      by (rule 2(3)[OF a Bare m unchanged_append _ under_construction_start sorted TObj' TBare'])
         simp
    then show ?thesis using v' j by (simp add: TBare' under_construction_finish)
  qed
next
  case (4 f n h t)
  then show ?case by auto
next
  case (5 f n h t item items)
  note run = 5(3) and u0 = 5(4) and t0 = 5(5) and t = 5(6) and target = 5(7)
    and inputs = 5(8) and sofar = 5(9) and TObj' = 5(10) and TBare' = 5(11)
  from inputs obtain jx js' where js: "js = jx # js'"
    and item: "represents_from 0 h0 item jx"
    and rest: "list_all2 (represents_from 0 h0) items js'"
    by (cases js) auto
  from run obtain y h1 where tr: "transform_store f n h item = Some (y, h1)"
    and loop: "map_items f n (push h1 t y) t items = Some h'"
    by (auto split: option.splits)
  from item u0 have "represents_from 0 h item jx" by (rule represents_from_unchanged)
  from 5(1)[OF tr this TObj' TBare'] have y: "represents_from (length h) h1 y (T jx)" .
  have u1: "unchanged h h1" using tr by (rule transform_store_unchanged(1))
  then have t1: "t < length h1" and target1: "h1 ! t = Arr made"
    using t target unchanged_length unchanged_nth by fastforce+
  let ?h2 = "h1[t := Arr (made @ [y])]"
  have push: "push h1 t y = ?h2" using target1 by (simp add: push_def)
  have u2: "unchanged h0 ?h2"
    using u0 u1 t0 by (blast intro: unchanged_trans unchanged_update)
  have "represents_from (Suc t) ?h2 y (T jx)"
    using y t by (auto intro: represents_from_update represents_from_lower)
  moreover have "list_all2 (represents_from (Suc t) ?h2) made ks"
    by (rule list_all2_mono[OF sofar]) (rule represents_from_frame[OF _ u1])
  ultimately have sofar2: "list_all2 (represents_from (Suc t) ?h2) (made @ [y]) (ks @ [T jx])"
    by (simp add: list_all2_appendI)
  have "t < length h' \<and>
        (\<exists>made'. h' ! t = Arr made'
           \<and> list_all2 (represents_from (Suc t) h') made' ((ks @ [T jx]) @ map T js'))"
    using t1
    by (intro 5(2)[OF tr refl _ _ t0 _ _ rest _ TObj' TBare', where ?made = "made @ [y]"])
       (simp_all add: push loop[unfolded push] u2 sofar2)
  then show ?case using js by simp
next
  case (6 f n h t)
  then show ?case by auto
next
  case (7 f n h t key v entries)
  note run = 7(3) and u0 = 7(4) and t0 = 7(5) and sofar = 7(6) and inputs = 7(7)
    and TObj' = 7(8) and TBare' = 7(9)
  let ?F = "\<lambda>transformed (key, v).
              assign_prop transformed (f key) (if is_object v then T v else v)"
  from inputs obtain jv ps' where ps: "ps = (key, jv) # ps'"
    and v: "represents_from 0 h0 v jv"
    and rest: "list_all2 (\<lambda>e p. fst e = fst p \<and> represents_from 0 h0 (snd e) (snd p)) entries ps'"
    by (cases ps) auto
  from run obtain v1 h1
    where tr: "(if is_ref v then transform_store f n h v else Some (v, h)) = Some (v1, h1)"
    and loop: "copy_entries f n (assign h1 t (f key) v1) t entries = Some h'"
    by (auto split: option.splits)
  from sofar have t: "t < length h" by (simp add: under_construction_def)
  let ?w = "if is_object jv then T jv else jv"
  have u1: "unchanged h h1" and v1: "represents_from (Suc t) h1 v1 ?w"
  proof -
    show "unchanged h h1"
      using tr transform_store_unchanged(1) unchanged_refl by (auto split: if_splits)
    show "represents_from (Suc t) h1 v1 ?w"
    proof (cases "is_ref v")
      case True
      then have obj: "is_object jv" using v represents_from_is_ref by blast
      from True tr have call: "transform_store f n h v = Some (v1, h1)" by simp
      from v u0 have "represents_from 0 h v jv" by (rule represents_from_unchanged)
      from 7(1)[OF True call this TObj' TBare']
      have "represents_from (length h) h1 v1 (T jv)" .
      then show ?thesis using obj t by (auto intro: represents_from_lower)
    next
      case False
      then have prim: "\<not> is_object jv" using v represents_from_is_ref by blast
      from False tr have "v1 = v" "h1 = h" by simp_all
      then show ?thesis using prim v represents_from_primitive by auto
    qed
  qed
  from sofar u1 have "under_construction (Suc t) h1 t acc"
    by (rule under_construction_unchanged)
  then have sofar2: "under_construction (Suc t) (assign h1 t (f key) v1) t
                       (assign_prop acc (f key) ?w)"
    using v1 by (rule under_construction_assign)
  have u2: "unchanged h0 (assign h1 t (f key) v1)"
    using u0 u1 t0 by (blast intro: unchanged_trans unchanged_assign)
  have "under_construction (Suc t) h' t (foldl ?F (assign_prop acc (f key) ?w) ps')"
    by (rule 7(2)[OF tr refl loop u2 t0 sofar2 rest TObj' TBare'])
  then show ?case using ps by simp
qed (erule (1) transform_store_primitive[OF _ _ _ TPrim], simp (no_asm), assumption)+

text \<open>
  A value that represents a record fits in one more nested call than the record is deep.
\<close>

lemma foldr_max_bound: "x \<in> set xs \<Longrightarrow> x \<le> foldr max xs (0::nat)"
  by (induction xs) auto

lemma list_all2_memberD: "list_all2 R xs ys \<Longrightarrow> x \<in> set xs \<Longrightarrow> \<exists>y\<in>set ys. R x y"
  by (induction rule: list_all2_induct) auto

lemma fits_mono: "fits n h v \<Longrightarrow> n \<le> m \<Longrightarrow> fits m h v"
proof (induction n h v arbitrary: m rule: fits.induct)
  case (1 h v)
  then show ?case by simp
next
  case (2 n h a)
  note fit = 2(4)
  from 2(5) obtain m' where m: "m = Suc m'" and le: "n \<le> m'" by (cases m) auto
  from fit have a: "a < length h" by simp
  show ?case
  proof (cases "h ! a")
    case (Arr items)
    with fit have "list_all (fits n h) items" by simp
    with 2(1)[OF Arr _ _ le] have "list_all (fits m' h) items"
      by (simp add: list_all_iff)
    with a m Arr show ?thesis by simp
  next
    case (Obj obj)
    with fit have "list_all (\<lambda>p. if is_ref (snd p) then fits n h (snd p) else True) obj"
      by simp
    with 2(2)[OF Obj _ _ _ le]
    have "list_all (\<lambda>p. if is_ref (snd p) then fits m' h (snd p) else True) obj"
      by (simp add: list_all_iff)
    with a m Obj show ?thesis by simp
  next
    case (Bare obj)
    with fit have "list_all (\<lambda>p. if is_ref (snd p) then fits n h (snd p) else True) obj"
      by simp
    with 2(3)[OF Bare _ _ _ le]
    have "list_all (\<lambda>p. if is_ref (snd p) then fits m' h (snd p) else True) obj"
      by (simp add: list_all_iff)
    with a m Bare show ?thesis by simp
  qed
qed (case_tac m; simp)+

lemma represents_from_fits:
  "represents_from b h v j \<Longrightarrow> fits (Suc (nesting j)) h v"
proof (induction b h v j rule: represents_from.induct)
  case (6 b h v js)
  then obtain a items where v: "v = VRef a" and a: "b \<le> a" "a < length h"
    and items: "h ! a = Arr items" and all: "list_all2 (represents_from b h) items js"
    by (auto split: hval.splits hobj.splits)
  have "fits (Suc (foldr max (map nesting js) 0)) h item" if "item \<in> set items" for item
  proof -
    from list_all2_memberD[OF all that]
    obtain jx where jx: "jx \<in> set js" and r: "represents_from b h item jx" by auto
    from 6(1)[OF v items that jx r] have "fits (Suc (nesting jx)) h item" .
    moreover from jx have "nesting jx \<le> foldr max (map nesting js) 0"
      by (simp add: foldr_max_bound)
    ultimately show ?thesis by (auto intro: fits_mono)
  qed
  then show ?case using v a items by (simp add: list_all_iff)
next
  case (7 b h v ps)
  then obtain a obj where v: "v = VRef a" and a: "b \<le> a" "a < length h"
    and obj: "h ! a = Obj obj"
    and all: "list_all2 (\<lambda>e p. fst e = fst p \<and> represents_from b h (snd e) (snd p)) obj ps"
    by (auto split: hval.splits hobj.splits)
  have "fits (Suc (foldr max (map (\<lambda>(key, v). nesting v) ps) 0)) h (snd e)"
    if "e \<in> set obj" for e
  proof -
    from list_all2_memberD[OF all that]
    obtain p where p: "p \<in> set ps" and r: "represents_from b h (snd e) (snd p)" by auto
    from 7(1)[OF v obj that p r] have "fits (Suc (nesting (snd p))) h (snd e)" .
    moreover from p have "nesting (snd p) \<le> foldr max (map (\<lambda>(key, v). nesting v) ps) 0"
      by (auto intro!: foldr_max_bound simp: image_iff split_beta)
    ultimately show ?thesis by (auto intro: fits_mono)
  qed
  then show ?case using v a obj by (simp add: list_all_iff)
next
  case (8 b h v ps)
  then obtain a obj where v: "v = VRef a" and a: "b \<le> a" "a < length h"
    and obj: "h ! a = Bare obj"
    and all: "list_all2 (\<lambda>e p. fst e = fst p \<and> represents_from b h (snd e) (snd p)) obj ps"
    by (auto split: hval.splits hobj.splits)
  have "fits (Suc (foldr max (map (\<lambda>(key, v). nesting v) ps) 0)) h (snd e)"
    if "e \<in> set obj" for e
  proof -
    from list_all2_memberD[OF all that]
    obtain p where p: "p \<in> set ps" and r: "represents_from b h (snd e) (snd p)" by auto
    from 8(1)[OF v obj that p r] have "fits (Suc (nesting (snd p))) h (snd e)" .
    moreover from p have "nesting (snd p) \<le> foldr max (map (\<lambda>(key, v). nesting v) ps) 0"
      by (auto intro!: foldr_max_bound simp: image_iff split_beta)
    ultimately show ?thesis by (auto intro: fits_mono)
  qed
  then show ?case using v a obj by (simp add: list_all_iff)
qed (case_tac v; simp)+

text \<open>The two functions of the class, in the store and on records.\<close>


lemma rallyToMcp_store_refines:
  "rallyToMcp_store n h v = Some (v', h') \<Longrightarrow> represents_from 0 h v j
   \<Longrightarrow> represents_from (length h) h' v' (rallyToMcp j)"
  unfolding rallyToMcp_store_def
  by (rule transform_store_refines(1)[where T = rallyToMcp and f = rallyFieldToMcp])
     (simp_all add: not_object_rallyToMcp)

lemma mcpToRally_store_refines:
  "mcpToRally_store n h v = Some (v', h') \<Longrightarrow> represents_from 0 h v j
   \<Longrightarrow> represents_from (length h) h' v' (mcpToRally j)"
  unfolding mcpToRally_store_def
  by (rule transform_store_refines(1)[where T = mcpToRally and f = mcpFieldToRally])
     (simp_all add: not_object_mcpToRally)

lemma nested_store_length: "length (nested_store keys) = length keys"
  by (induction keys rule: nested_store.induct) simp_all

lemma nested_store_fits:
  "keys \<noteq> [] \<Longrightarrow> fits (length keys) (nested_store keys) (VRef (length keys - 1))"
proof (induction keys rule: nested_store.induct)
  case 1
  then show ?case by simp
next
  case (2 key)
  then show ?case by simp
next
  case (3 key k keys)
  let ?inner = "nested_store (k # keys)"
  let ?top = "Obj [(key, VRef (length keys))]"
  have len: "length ?inner = Suc (length keys)" by (simp only: nested_store_length length_Cons)
  have whole: "nested_store (key # k # keys) = ?inner @ [?top]" by simp
  from 3 have "fits (Suc (length keys)) ?inner (VRef (length keys))" by simp
  then have inner: "fits (Suc (length keys)) (?inner @ [?top]) (VRef (length keys))"
    using unchanged_append by (rule fits_unchanged)
  have "(?inner @ [?top]) ! Suc (length keys) = ?top"
    using len by (metis nth_append_length)
  with inner len have "fits (Suc (Suc (length keys))) (?inner @ [?top]) (VRef (Suc (length keys)))"
    by (simp del: nested_store.simps fits.simps(2) add: fits.simps(2)[of "Suc (length keys)"])
  with whole show ?case by (simp del: nested_store.simps fits.simps)
qed

lemma sample_store_transformed:
  "rallyToMcp_store 3 sample_store (VRef 0)
   = Some (VRef 2,
           sample_store @
           [Obj [(''formatted-id'', VStr ''US1234''), (''metadata-ref'', VStr ''https://x/123''),
                 (''tags'', VRef 3)],
            Arr [VStr ''ui'', VNull, VNum 3]])"
  by code_simp

text \<open>
  C6.  On the pure model: primitives come back as they are, from both directions, and an
  empty object and an empty array come back empty and of the same kind.  In the store:
  on every well-formed record that the call stack has room for, both functions return,
  and whenever they return, every object that was in the store before the call is the
  same after it; a primitive comes back as it is, at the first call and with the store
  untouched; an empty object or array comes back as a new empty object or array; and a
  record nested to any depth (a hundred levels or more) fits in as many nested calls as
  it has levels.  The two models agree: given a value that is the record \<open>j\<close>, and room for
  more nested calls than \<open>j\<close> is deep, each function returns a value that is what the
  function on records makes of \<open>j\<close>, built of new objects only, and the value it was given
  is still the record \<open>j\<close>.
\<close>

theorem transformer_total_and_leaves_input_alone:
  "rallyToMcp JNull = JNull \<and> rallyToMcp JUndefined = JUndefined
   \<and> rallyToMcp (JNum i) = JNum i \<and> rallyToMcp (JStr s) = JStr s
   \<and> rallyToMcp (JBool b) = JBool b
   \<and> mcpToRally JNull = JNull \<and> mcpToRally JUndefined = JUndefined
   \<and> mcpToRally (JNum i) = JNum i \<and> mcpToRally (JStr s) = JStr s
   \<and> mcpToRally (JBool b) = JBool b
   \<and> rallyToMcp (JObj []) = JObj [] \<and> rallyToMcp (JArr []) = JArr []
   \<and> mcpToRally (JObj []) = JObj [] \<and> mcpToRally (JArr []) = JArr []
   \<and> (fits n h v \<longrightarrow>
         (\<exists>v' h'. rallyToMcp_store n h v = Some (v', h') \<and> unchanged h h')
         \<and> (\<exists>v' h'. mcpToRally_store n h v = Some (v', h') \<and> unchanged h h'))
   \<and> (rallyToMcp_store n h v = Some (w, h1) \<longrightarrow> unchanged h h1)
   \<and> (mcpToRally_store n h v = Some (w, h1) \<longrightarrow> unchanged h h1)
   \<and> (\<not> is_ref v \<longrightarrow>
         rallyToMcp_store (Suc n) h v = Some (v, h) \<and> mcpToRally_store (Suc n) h v = Some (v, h))
   \<and> (a < length h \<and> h ! a = Obj [] \<longrightarrow>
         rallyToMcp_store (Suc n) h (VRef a) = Some (VRef (length h), h @ [Obj []])
         \<and> mcpToRally_store (Suc n) h (VRef a) = Some (VRef (length h), h @ [Obj []]))
   \<and> (a < length h \<and> h ! a = Arr [] \<longrightarrow>
         rallyToMcp_store (Suc n) h (VRef a) = Some (VRef (length h), h @ [Arr []])
         \<and> mcpToRally_store (Suc n) h (VRef a) = Some (VRef (length h), h @ [Arr []]))
   \<and> (keys \<noteq> [] \<longrightarrow> fits (length keys) (nested_store keys) (VRef (length keys - 1)))
   \<and> (represents_from 0 h v j \<and> nesting j < n \<longrightarrow>
         (\<exists>v' h'. rallyToMcp_store n h v = Some (v', h')
                  \<and> represents_from (length h) h' v' (rallyToMcp j)
                  \<and> represents_from 0 h' v j)
         \<and> (\<exists>v' h'. mcpToRally_store n h v = Some (v', h')
                    \<and> represents_from (length h) h' v' (mcpToRally j)
                    \<and> represents_from 0 h' v j))"
proof -
  have returns: "\<exists>v' h'. transform_store f n h v = Some (v', h') \<and> unchanged h h'"
    if "fits n h v" for f
  proof -
    from transform_store_returns(1)[OF that, of f]
    obtain v' h' where "transform_store f n h v = Some (v', h')" by fastforce
    then show ?thesis using transform_store_unchanged(1) by blast
  qed
  have prim: "transform_store f (Suc n) h v = Some (v, h)" if "\<not> is_ref v" for f
    using that by (cases v) simp_all
  have room: "fits n h v" if "represents_from 0 h v j" and "nesting j < n"
    using that represents_from_fits[of 0 h v j] by (auto intro: fits_mono)
  have rally: "\<exists>v' h'. rallyToMcp_store n h v = Some (v', h')
                 \<and> represents_from (length h) h' v' (rallyToMcp j)
                 \<and> represents_from 0 h' v j"
    if r: "represents_from 0 h v j" and n: "nesting j < n"
  proof -
    from returns[OF room[OF r n], of rallyFieldToMcp]
    obtain v' h' where tr: "rallyToMcp_store n h v = Some (v', h')" and u: "unchanged h h'"
      by (auto simp: rallyToMcp_store_def)
    from rallyToMcp_store_refines[OF tr r] represents_from_unchanged[OF r u] tr
    show ?thesis by blast
  qed
  have mcp: "\<exists>v' h'. mcpToRally_store n h v = Some (v', h')
               \<and> represents_from (length h) h' v' (mcpToRally j)
               \<and> represents_from 0 h' v j"
    if r: "represents_from 0 h v j" and n: "nesting j < n"
  proof -
    from returns[OF room[OF r n], of mcpFieldToRally]
    obtain v' h' where tr: "mcpToRally_store n h v = Some (v', h')" and u: "unchanged h h'"
      by (auto simp: mcpToRally_store_def)
    from mcpToRally_store_refines[OF tr r] represents_from_unchanged[OF r u] tr
    show ?thesis by blast
  qed
  have store:
    "(fits n h v \<longrightarrow>
         (\<exists>v' h'. rallyToMcp_store n h v = Some (v', h') \<and> unchanged h h')
         \<and> (\<exists>v' h'. mcpToRally_store n h v = Some (v', h') \<and> unchanged h h'))
     \<and> (rallyToMcp_store n h v = Some (w, h1) \<longrightarrow> unchanged h h1)
     \<and> (mcpToRally_store n h v = Some (w, h1) \<longrightarrow> unchanged h h1)
     \<and> (\<not> is_ref v \<longrightarrow>
         rallyToMcp_store (Suc n) h v = Some (v, h) \<and> mcpToRally_store (Suc n) h v = Some (v, h))
     \<and> (a < length h \<and> h ! a = Obj [] \<longrightarrow>
         rallyToMcp_store (Suc n) h (VRef a) = Some (VRef (length h), h @ [Obj []])
         \<and> mcpToRally_store (Suc n) h (VRef a) = Some (VRef (length h), h @ [Obj []]))
     \<and> (a < length h \<and> h ! a = Arr [] \<longrightarrow>
         rallyToMcp_store (Suc n) h (VRef a) = Some (VRef (length h), h @ [Arr []])
         \<and> mcpToRally_store (Suc n) h (VRef a) = Some (VRef (length h), h @ [Arr []]))
     \<and> (keys \<noteq> [] \<longrightarrow> fits (length keys) (nested_store keys) (VRef (length keys - 1)))"
    using returns prim nested_store_fits[of keys] transform_store_unchanged(1)
    by (simp add: rallyToMcp_store_def mcpToRally_store_def object_entries_def)
  have records:
    "rallyToMcp JNull = JNull \<and> rallyToMcp JUndefined = JUndefined
     \<and> rallyToMcp (JNum i) = JNum i \<and> rallyToMcp (JStr s) = JStr s
     \<and> rallyToMcp (JBool b) = JBool b
     \<and> mcpToRally JNull = JNull \<and> mcpToRally JUndefined = JUndefined
     \<and> mcpToRally (JNum i) = JNum i \<and> mcpToRally (JStr s) = JStr s
     \<and> mcpToRally (JBool b) = JBool b
     \<and> rallyToMcp (JObj []) = JObj [] \<and> rallyToMcp (JArr []) = JArr []
     \<and> mcpToRally (JObj []) = JObj [] \<and> mcpToRally (JArr []) = JArr []"
    by (simp add: object_entries_def)
  from rally mcp
  have "represents_from 0 h v j \<and> nesting j < n \<longrightarrow>
         (\<exists>v' h'. rallyToMcp_store n h v = Some (v', h')
                  \<and> represents_from (length h) h' v' (rallyToMcp j)
                  \<and> represents_from 0 h' v j)
         \<and> (\<exists>v' h'. mcpToRally_store n h v = Some (v', h')
                    \<and> represents_from (length h) h' v' (mcpToRally j)
                    \<and> represents_from 0 h' v j)"
    by blast
  with records store show ?thesis by blast
qed

theorem transformer_total_and_leaves_input_alone_witness:
  "fits 3 sample_store (VRef 0)
   \<and> (\<exists>v' h'. rallyToMcp_store 3 sample_store (VRef 0) = Some (v', h')
               \<and> unchanged sample_store h')
   \<and> (\<exists>v' h'. mcpToRally_store 3 sample_store (VRef 0) = Some (v', h')
               \<and> unchanged sample_store h')
   \<and> \<not> is_ref VNull
   \<and> rallyToMcp_store 1 sample_store VNull = Some (VNull, sample_store)
   \<and> mcpToRally_store 1 sample_store VNull = Some (VNull, sample_store)
   \<and> [Obj [], Arr []] ! 0 = Obj []
   \<and> rallyToMcp_store 1 [Obj [], Arr []] (VRef 0) = Some (VRef 2, [Obj [], Arr [], Obj []])
   \<and> mcpToRally_store 1 [Obj [], Arr []] (VRef 0) = Some (VRef 2, [Obj [], Arr [], Obj []])
   \<and> [Obj [], Arr []] ! 1 = Arr []
   \<and> rallyToMcp_store 1 [Obj [], Arr []] (VRef 1) = Some (VRef 2, [Obj [], Arr [], Arr []])
   \<and> mcpToRally_store 1 [Obj [], Arr []] (VRef 1) = Some (VRef 2, [Obj [], Arr [], Arr []])
   \<and> fits 2 (nested_store [''Level1'', ''Level0'']) (VRef 1)
   \<and> represents_from 0 sample_store (VRef 0) sample_record \<and> nesting sample_record < 3
   \<and> (\<exists>v' h'. rallyToMcp_store 3 sample_store (VRef 0) = Some (v', h')
               \<and> represents_from (length sample_store) h' v' (rallyToMcp sample_record)
               \<and> represents_from 0 h' (VRef 0) sample_record)
   \<and> (\<exists>v' h'. mcpToRally_store 3 sample_store (VRef 0) = Some (v', h')
               \<and> represents_from (length sample_store) h' v' (mcpToRally sample_record)
               \<and> represents_from 0 h' (VRef 0) sample_record)
   \<and> rallyToMcp sample_record
       = JObj [(''formatted-id'', JStr ''US1234''), (''metadata-ref'', JStr ''https://x/123''),
               (''tags'', JArr [JStr ''ui'', JNull, JNum 3])]"
proof -
  have f: "fits 3 sample_store (VRef 0)" by code_simp
  have d: "fits 2 (nested_store [''Level1'', ''Level0'']) (VRef 1)" by code_simp
  have p: "\<not> is_ref VNull" by simp
  have r: "represents_from 0 sample_store (VRef 0) sample_record" by code_simp
  have m: "nesting sample_record < 3" by code_simp
  have t: "rallyToMcp sample_record
           = JObj [(''formatted-id'', JStr ''US1234''), (''metadata-ref'', JStr ''https://x/123''),
                   (''tags'', JArr [JStr ''ui'', JNull, JNum 3])]"
    by code_simp
  show ?thesis
    using f d p r m t
      transformer_total_and_leaves_input_alone[of i s b 3 sample_store "VRef 0" w h1 a keys
                                                  sample_record]
      transformer_total_and_leaves_input_alone[of i s b 0 sample_store VNull w h1 a keys j]
      transformer_total_and_leaves_input_alone[of i s b 0 "[Obj [], Arr []]" v w h1 0 keys j]
      transformer_total_and_leaves_input_alone[of i s b 0 "[Obj [], Arr []]" v w h1 1 keys j]
    by simp
qed

section \<open>Properties of the error handler\<close>

subsection \<open>Conversions\<close>

lemma js_error_TypeError: "(e :: js_error) = TypeError"
  by (cases e) simp

lemma collect_Inr:
  "(\<And>x. x \<in> set xs \<Longrightarrow> \<exists>v. x = Inr v) \<Longrightarrow> \<exists>vs. collect xs = Inr vs"
proof (induction xs)
  case Nil
  then show ?case by simp
next
  case (Cons x xs)
  then obtain v vs where "x = Inr v" "collect xs = Inr vs" by (metis list.set_intros)
  then show ?case by simp
qed

lemma collect_Inl:
  "Inl e \<in> set xs \<Longrightarrow> \<exists>e'. collect xs = Inl e'"
proof (induction xs)
  case Nil
  then show ?case by simp
next
  case (Cons x xs)
  then show ?case by (cases x; cases "collect xs") auto
qed

text \<open>The conversion to a string returns on a Record with a string form, and only there.\<close>

lemma ToString_returns: "has_string_form v \<Longrightarrow> \<exists>s. ToString v = Inr s"
proof (induction v rule: ToString.induct)
  case (6 items)
  have "\<exists>w. x = Inr w"
    if "x \<in> set (map (\<lambda>item. if is_nullish item then Inr [] else ToString item) items)" for x
  proof -
    from that obtain item where item: "item \<in> set items"
      and x: "x = (if is_nullish item then Inr [] else ToString item)"
      by auto
    show ?thesis
    proof (cases "is_nullish item")
      case True
      with x show ?thesis by simp
    next
      case False
      from 6(2) item have "has_string_form item" by (simp add: list_all_iff)
      from 6(1)[OF item False this] x False show ?thesis by simp
    qed
  qed
  then obtain parts
    where "collect (map (\<lambda>item. if is_nullish item then Inr [] else ToString item) items)
           = Inr parts"
    using collect_Inr by blast
  then show ?case by simp
qed simp_all

lemma ToString_raises: "\<not> has_string_form v \<Longrightarrow> ToString v = Inl TypeError"
proof (induction v rule: ToString.induct)
  case (6 items)
  then obtain item where item: "item \<in> set items" and no: "\<not> has_string_form item"
    by (auto simp: list_all_iff)
  from no have n: "\<not> is_nullish item" by (cases item) auto
  from 6(1)[OF item n no] item n
  have "Inl TypeError
        \<in> set (map (\<lambda>item. if is_nullish item then Inr [] else ToString item) items)"
    by force
  then have "\<exists>e. collect (map (\<lambda>item. if is_nullish item then Inr [] else ToString item)
                             items) = Inl e"
    by (rule collect_Inl)
  then obtain e
    where "collect (map (\<lambda>item. if is_nullish item then Inr [] else ToString item) items)
           = Inl e" ..
  then show ?case by (simp add: js_error_TypeError[of e])
qed simp_all

lemma requestMethod_usable: "method_usable e \<Longrightarrow> \<exists>m. requestMethod e = Inr m"
  by (cases "config e"; cases "http_method (the (config e))")
     (auto simp: method_usable_def requestMethod_def)

lemma requestMethod_raises: "\<not> method_usable e \<Longrightarrow> requestMethod e = Inl TypeError"
  by (cases "config e"; cases "http_method (the (config e))")
     (auto simp: method_usable_def requestMethod_def)

lemma createUserFriendlyMessage_returns:
  "has_string_form m \<Longrightarrow> \<exists>s. createUserFriendlyMessage t m = Inr s"
  using ToString_returns[of m]
  by (auto simp: createUserFriendlyMessage_def split: option.splits)

lemma first_pattern_returns:
  "has_string_form m \<Longrightarrow> \<exists>t. first_pattern ps m = Inr t"
  using ToString_returns[of m] by (induction ps) auto

lemma classifyNetworkError_returns:
  "has_string_form m \<Longrightarrow> \<exists>t. classifyNetworkError m = Inr t"
  using first_pattern_returns[of m NETWORK_ERROR_PATTERNS]
  by (auto simp: classifyNetworkError_def split: option.splits)

lemma classifyNetworkError_raises:
  "\<not> has_string_form m \<Longrightarrow> classifyNetworkError m = Inl TypeError"
  using ToString_raises[of m]
  by (simp add: classifyNetworkError_def NETWORK_ERROR_PATTERNS_def)

lemma axios_result_returns:
  "method_usable e \<Longrightarrow> has_string_form (error_message e)
   \<Longrightarrow> \<exists>r. axios_result cfg st e ctx t sev code_text = Inr r \<and> type r = t"
  using requestMethod_usable[of e] createUserFriendlyMessage_returns[of "error_message e" t]
  by (auto simp: axios_result_def)

lemma axios_result_raises:
  "\<not> method_usable e \<Longrightarrow> axios_result cfg st e ctx t sev code_text = Inl TypeError"
  using requestMethod_raises[of e]
  by (auto simp: axios_result_def js_error_TypeError split: sum.splits)

lemma classifyError_returns:
  "is_string (error_message e) \<Longrightarrow> is_string (error_name e) \<Longrightarrow> \<exists>t. classifyError e = Inr t"
  by (cases "error_message e"; cases "error_name e")
     (auto simp: classifyError_def Let_def split: option.splits)

lemma classifyError_raises:
  "\<not> is_string (error_message e) \<or> \<not> is_string (error_name e)
   \<Longrightarrow> classifyError e = Inl TypeError"
  by (cases "error_message e"; cases "error_name e") (auto simp: classifyError_def)

lemma classifyError_string:
  "classifyError e = Inr t \<Longrightarrow> \<exists>s. error_message e = JStr s"
  by (cases "error_message e") (auto simp: classifyError_def)

subsection \<open>Which path a failure takes\<close>

lemma classify_Error_instance:
  "instanceofError e \<Longrightarrow>
   classify cfg fresh now st (ObjectValue e) op given
     = processError cfg st e (make_context cfg fresh now op given)"
  by (cases "processError cfg st e (make_context cfg fresh now op given)")
     (simp_all add: classify_def handleError_def Let_def)

lemma classify_flagged:
  "\<not> instanceofError e \<Longrightarrow> isAxiosError e \<Longrightarrow>
   classify cfg fresh now st (ObjectValue e) op given
     = processAxiosError cfg st e (make_context cfg fresh now op given)"
  by (cases "processAxiosError cfg st e (make_context cfg fresh now op given)")
     (simp_all add: classify_def handleError_def Let_def)

lemma classify_unrecognised:
  "unrecognised failure \<Longrightarrow>
   classify cfg fresh now st failure op given
     = processUnknownError st failure (make_context cfg fresh now op given)"
  by (cases "processUnknownError st failure (make_context cfg fresh now op given)";
      cases failure)
     (simp_all add: classify_def handleError_def Let_def unrecognised_def)

lemma handleError_classify:
  "classify cfg fresh now st failure op given = Inr r \<Longrightarrow>
   \<exists>st'. handleError cfg fresh now st failure op given = Inr (r, st')"
  by (cases "handleError cfg fresh now st failure op given") (auto simp: classify_def)

lemma handleError_raises:
  "classify cfg fresh now st failure op given = Inl e \<Longrightarrow>
   handleError cfg fresh now st failure op given = Inl e"
  by (cases "handleError cfg fresh now st failure op given") (auto simp: classify_def)

lemma thrown_axios_error_sel:
  "instanceofError (thrown_axios_error n msg)"
  "isAxiosError (thrown_axios_error n msg)"
  "response (thrown_axios_error n msg) = Some (response_with_status n)"
  "error_message (thrown_axios_error n msg) = JStr msg"
  "status (response_with_status n) = Some n"
  by (simp_all add: thrown_axios_error_def response_with_status_def)

lemma flagged_object_sel:
  "\<not> instanceofError (flagged_object r msg)"
  "isAxiosError (flagged_object r msg)"
  "response (flagged_object r msg) = r"
  "error_message (flagged_object r msg) = json_of_string msg"
  "config (flagged_object r msg) = None"
  "request (flagged_object r msg) = False"
  by (simp_all add: flagged_object_def)

lemma plain_error_sel:
  "instanceofError (plain_error nm msg)"
  "error_message (plain_error nm msg) = JStr msg"
  "error_name (plain_error nm msg) = JStr nm"
  by (simp_all add: plain_error_def)

subsection \<open>Table look-ups\<close>

lemma string_of_int_401: "string_of_int 401 = ''401''"
  by code_simp

lemma string_of_int_404: "string_of_int 404 = ''404''"
  by code_simp

lemma string_of_int_429: "string_of_int 429 = ''429''"
  by code_simp

lemma string_of_int_500: "string_of_int 500 = ''500''"
  by code_simp

lemma mapping_401:
  "map_of RALLY_ERROR_MAPPINGS ''401'' = Some (Mapping AUTHENTICATION_ERROR HIGH USER_INTERVENTION)"
  by code_simp

lemma mapping_404:
  "map_of RALLY_ERROR_MAPPINGS ''404'' = Some (Mapping NOT_FOUND_ERROR MEDIUM FAIL_FAST)"
  by code_simp

lemma mapping_429:
  "map_of RALLY_ERROR_MAPPINGS ''429'' = Some (Mapping RALLY_RATE_LIMIT MEDIUM RETRY_WITH_BACKOFF)"
  by code_simp

lemma mapping_500:
  "map_of RALLY_ERROR_MAPPINGS ''500'' = Some (Mapping RALLY_SERVER_ERROR HIGH RETRY_WITH_BACKOFF)"
  by code_simp

lemma find_AUTHENTICATION_ERROR:
  "find_rally_mapping AUTHENTICATION_ERROR
     = Some (Mapping AUTHENTICATION_ERROR HIGH USER_INTERVENTION)"
  by code_simp

lemma find_RALLY_RATE_LIMIT:
  "find_rally_mapping RALLY_RATE_LIMIT = Some (Mapping RALLY_RATE_LIMIT MEDIUM RETRY_WITH_BACKOFF)"
  by code_simp

lemma find_INTERNAL_ERROR: "find_rally_mapping INTERNAL_ERROR = None"
  by code_simp

text \<open>
  No table gives the category unexpected: it is neither a category of a status nor one of
  a network pattern, and \<^verbatim>\<open>classifyError\<close> never answers it.
\<close>

lemma mapping_not_unexpected:
  "map_of RALLY_ERROR_MAPPINGS s = Some m \<Longrightarrow> mapping_type m \<noteq> UNEXPECTED_ERROR"
proof -
  assume "map_of RALLY_ERROR_MAPPINGS s = Some m"
  then have "m \<in> set (map snd RALLY_ERROR_MAPPINGS)"
    by (metis map_of_SomeD set_zip_rightD zip_map_fst_snd)
  moreover have "list_all (\<lambda>m. mapping_type m \<noteq> UNEXPECTED_ERROR) (map snd RALLY_ERROR_MAPPINGS)"
    by code_simp
  ultimately show ?thesis by (auto simp: list_all_iff)
qed

lemma pattern_not_unexpected:
  "p \<in> set NETWORK_ERROR_PATTERNS \<Longrightarrow> errorType p \<noteq> UNEXPECTED_ERROR"
  by (auto simp: NETWORK_ERROR_PATTERNS_def)

lemma first_pattern_not_unexpected:
  "first_pattern ps m = Inr (Some t) \<Longrightarrow> \<exists>p\<in>set ps. errorType p = t"
  by (induction ps) (auto split: sum.splits if_splits)

lemma classifyNetworkError_not_unexpected:
  "classifyNetworkError m = Inr t \<Longrightarrow> t \<noteq> UNEXPECTED_ERROR"
  using first_pattern_not_unexpected[of NETWORK_ERROR_PATTERNS m] pattern_not_unexpected
  by (auto simp: classifyNetworkError_def split: sum.splits option.splits)

lemma classifyError_not_unexpected:
  "classifyError e = Inr t \<Longrightarrow> t \<noteq> UNEXPECTED_ERROR"
proof -
  assume c: "classifyError e = Inr t"
  have "errorType p \<noteq> UNEXPECTED_ERROR" if "List.find P NETWORK_ERROR_PATTERNS = Some p" for P p
    using that pattern_not_unexpected by (auto simp: find_Some_iff)
  with c show ?thesis
    by (cases "error_message e"; cases "error_name e")
       (auto simp: classifyError_def Let_def split: option.splits if_splits)
qed

lemma axios_result_type:
  "axios_result cfg st e ctx t sev code_text = Inr r \<Longrightarrow> type r = t"
  by (auto simp: axios_result_def split: sum.splits)

lemma processAxiosError_not_unexpected:
  "processAxiosError cfg st e ctx = Inr r \<Longrightarrow> type r \<noteq> UNEXPECTED_ERROR"
  using mapping_not_unexpected mapping_not_unexpected[symmetric]
    classifyNetworkError_not_unexpected
  by (auto simp: processAxiosError_def Let_def dest!: axios_result_type
           split: option.splits if_splits sum.splits)
     blast+

lemma processError_not_unexpected:
  "processError cfg st e ctx = Inr r \<Longrightarrow> type r \<noteq> UNEXPECTED_ERROR"
  using classifyError_not_unexpected
  by (auto simp: processError_def split: sum.splits)

text \<open>
  The sentences agree with the templates of \<^verbatim>\<open>userMessages\<close> on every category but
  unexpected.
\<close>

lemma fixed_sentences_userMessages:
  "t \<noteq> UNEXPECTED_ERROR \<Longrightarrow> map_of fixed_sentences t = map_of userMessages t"
  by (simp add: fixed_sentences_def userMessages_def)

lemma fixed_sentences_unexpected:
  "map_of fixed_sentences UNEXPECTED_ERROR = Some ''An unexpected error occurred''"
  by (simp add: fixed_sentences_def)

subsection \<open>Status 401 and 429 on the path for flagged objects\<close>

text \<open>
  An object that is not an \<^verbatim>\<open>Error\<close> instance and is flagged \<^verbatim>\<open>isAxiosError\<close> is
  classified by its status, whatever its message says.
\<close>

lemma flagged_401:
  assumes "\<not> instanceofError e" "isAxiosError e" "response e = Some r" "status r = Some 401"
    and "method_usable e"
  shows "\<exists>rec. classify cfg fresh now st (ObjectValue e) op given = Inr rec
     \<and> type rec = AUTHENTICATION_ERROR \<and> severity rec = HIGH
     \<and> recovery rec = only_strategy USER_INTERVENTION
     \<and> message rec = ''Authentication failed. Please check your Rally API key.''
     \<and> rallyErrorCode rec = Some ''401''"
  using assms requestMethod_usable[of e]
  by (auto simp: classify_flagged processAxiosError_def Let_def string_of_int_401 mapping_401
        axios_result_def determineRecoveryStrategy_def find_AUTHENTICATION_ERROR
        createUserFriendlyMessage_def userMessages_def only_strategy_def)

lemma flagged_429:
  assumes "\<not> instanceofError e" "isAxiosError e" "response e = Some r" "status r = Some 429"
    and "method_usable e"
  shows "\<exists>rec. classify cfg fresh now st (ObjectValue e) op given = Inr rec
     \<and> type rec = RALLY_RATE_LIMIT \<and> severity rec = MEDIUM
     \<and> recovery rec = retrying RETRY_WITH_BACKOFF 5 5000 (Some 2)
     \<and> message rec = ''Rally API rate limit exceeded. Please wait before trying again.''
     \<and> rallyErrorCode rec = Some ''429''"
  using assms requestMethod_usable[of e]
  by (auto simp: classify_flagged processAxiosError_def Let_def string_of_int_429 mapping_429
        axios_result_def determineRecoveryStrategy_def find_RALLY_RATE_LIMIT
        createUserFriendlyMessage_def userMessages_def retrying_def)

lemma flagged_raises:
  assumes "\<not> instanceofError e" "isAxiosError e" "\<not> method_usable e"
  shows "classify cfg fresh now st (ObjectValue e) op given = Inl TypeError"
  using assms axios_result_raises[of e]
  by (auto simp: classify_flagged processAxiosError_def Let_def js_error_TypeError
           split: option.splits sum.splits)

subsection \<open>The claims about the error handler\<close>

text \<open>
  C1, at the failing input.  An error as the HTTP client raises it, with status 401 and a
  message that names \<^verbatim>\<open>ECONNREFUSED\<close>, is an \<^verbatim>\<open>Error\<close> instance; \<^verbatim>\<open>handleError\<close> tests
  \<^verbatim>\<open>instanceof Error\<close> first, never looks at the response, and classifies it by its
  message as a network error.
\<close>

theorem status_precedence_lost_on_thrown_error:
  "map_sum id type
     (classify cfg fresh now st
        (ObjectValue (thrown_axios_error 401 ''connect ECONNREFUSED 10.0.0.1:443'')) op given)
   = Inr NETWORK_ERROR"
proof -
  have "classifyError (thrown_axios_error 401 ''connect ECONNREFUSED 10.0.0.1:443'')
        = Inr NETWORK_ERROR"
    by code_simp
  then show ?thesis
    by (simp add: classify_Error_instance thrown_axios_error_sel processError_def
          createUserFriendlyMessage_def userMessages_def)
qed

text \<open>
  C9, at the failing input.  The same error with status 429 and the client's usual message
  is classified as an internal error, to be retried once, not as a rate limit.
\<close>

theorem rate_limit_lost_on_thrown_error:
  "map_sum id type
     (classify cfg fresh now st
        (ObjectValue (thrown_axios_error 429 ''Request failed with status code 429'')) op given)
   = Inr INTERNAL_ERROR
   \<and> map_sum id recovery
     (classify cfg fresh now st
        (ObjectValue (thrown_axios_error 429 ''Request failed with status code 429'')) op given)
   = Inr (retrying RETRY 1 1000 None)"
proof -
  have "classifyError (thrown_axios_error 429 ''Request failed with status code 429'')
        = Inr INTERNAL_ERROR"
    by code_simp
  then show ?thesis
    by (simp add: classify_Error_instance thrown_axios_error_sel processError_def
          createUserFriendlyMessage_def userMessages_def
          determineRecoveryStrategy_def find_INTERNAL_ERROR)
qed

text \<open>
  C4, as the code has it: the table gives status 401 the severity \<^verbatim>\<open>high\<close>, and that is
  what the record carries.
\<close>

theorem unauthorized_severity_counterexample:
  "map_sum id severity
     (classify sample_config ''c-1'' 0 initial_state
        (ObjectValue (flagged_object (Some (response_with_status 401)) None)) ''getStory'' None)
   = Inr HIGH
   \<and> HIGH \<noteq> CRITICAL"
  using flagged_401[of "flagged_object (Some (response_with_status 401)) None"
          "response_with_status 401" sample_config "''c-1''" 0 initial_state "''getStory''" None]
  by (auto simp: flagged_object_sel response_with_status_def method_usable_def)

text \<open>
  C4, amended.  A failure that is not an \<^verbatim>\<open>Error\<close> instance, is flagged
  \<^verbatim>\<open>isAxiosError\<close> and carries status 401 gets the category authentication, the severity
  \<^verbatim>\<open>high\<close> and the recovery strategy user-intervention.  That is so for every such
  failure for which there is a record at all: there is none, and a \<^verbatim>\<open>TypeError\<close> instead,
  exactly when the method of its request is neither missing nor a string.
\<close>

theorem unauthorized_is_high_and_user_intervention:
  assumes "\<not> instanceofError e" "isAxiosError e" "response e = Some r" "status r = Some 401"
  shows "map_sum id type (classify cfg fresh now st (ObjectValue e) op given)
           = (if method_usable e then Inr AUTHENTICATION_ERROR else Inl TypeError)
       \<and> map_sum id severity (classify cfg fresh now st (ObjectValue e) op given)
           = (if method_usable e then Inr HIGH else Inl TypeError)
       \<and> map_sum id (strategy \<circ> recovery) (classify cfg fresh now st (ObjectValue e) op given)
           = (if method_usable e then Inr USER_INTERVENTION else Inl TypeError)"
proof (cases "method_usable e")
  case True
  with flagged_401[OF assms True, of cfg fresh now st op given] show ?thesis
    by (auto simp: only_strategy_def)
next
  case False
  with flagged_raises[OF assms(1,2) False, of cfg fresh now st op given] show ?thesis
    by simp
qed

theorem unauthorized_is_high_and_user_intervention_witness:
  "\<not> instanceofError (flagged_object (Some (response_with_status 401)) (Some ''timeout''))
   \<and> isAxiosError (flagged_object (Some (response_with_status 401)) (Some ''timeout''))
   \<and> response (flagged_object (Some (response_with_status 401)) (Some ''timeout''))
       = Some (response_with_status 401)
   \<and> status (response_with_status 401) = Some 401
   \<and> map_sum id type
       (classify sample_config ''c-1'' 0 initial_state
          (ObjectValue (flagged_object (Some (response_with_status 401)) (Some ''timeout'')))
          ''getStory'' None) = Inr AUTHENTICATION_ERROR
   \<and> map_sum id severity
       (classify sample_config ''c-1'' 0 initial_state
          (ObjectValue (flagged_object (Some (response_with_status 401)) (Some ''timeout'')))
          ''getStory'' None) = Inr HIGH
   \<and> map_sum id (strategy \<circ> recovery)
       (classify sample_config ''c-1'' 0 initial_state
          (ObjectValue (flagged_object (Some (response_with_status 401)) (Some ''timeout'')))
          ''getStory'' None) = Inr USER_INTERVENTION"
proof -
  have h: "\<not> instanceofError (flagged_object (Some (response_with_status 401)) (Some ''timeout''))"
    "isAxiosError (flagged_object (Some (response_with_status 401)) (Some ''timeout''))"
    "response (flagged_object (Some (response_with_status 401)) (Some ''timeout''))
       = Some (response_with_status 401)"
    "status (response_with_status 401) = Some 401"
    by (simp_all add: flagged_object_sel response_with_status_def)
  have m: "method_usable (flagged_object (Some (response_with_status 401)) (Some ''timeout''))"
    by (simp add: method_usable_def flagged_object_sel)
  show ?thesis
    using h m unauthorized_is_high_and_user_intervention[OF h, of sample_config "''c-1''" 0
            initial_state "''getStory''" None]
    by simp
qed

text \<open>
  C3, as the code has it.  \<^verbatim>\<open>userMessages\<close> has a template for fourteen categories; for
  any other category \<^verbatim>\<open>createUserFriendlyMessage\<close> falls back on
  \<^verbatim>\<open>`Error: ${originalMessage}`\<close>, and the text of the exception is in the message.
\<close>

theorem message_leaks_counterexample:
  "map_sum id type
     (classify sample_config ''c-1'' 0 initial_state
        (ObjectValue (plain_error ''TypeError'' ''token abc123 is not iterable''))
        ''getStory'' None)
   = Inr DATA_TRANSFORMATION_ERROR
   \<and> map_sum id message
     (classify sample_config ''c-1'' 0 initial_state
        (ObjectValue (plain_error ''TypeError'' ''token abc123 is not iterable''))
        ''getStory'' None)
   = Inr ''Error: token abc123 is not iterable''
   \<and> map_sum id message
     (classify sample_config ''c-1'' 0 initial_state
        (ObjectValue (flagged_object (Some (response_with_status 500))
                        (Some ''upstream db-7 refused'')))
        ''getStory'' None)
   = Inr ''Error: upstream db-7 refused''"
proof -
  have "classifyError (plain_error ''TypeError'' ''token abc123 is not iterable'')
        = Inr DATA_TRANSFORMATION_ERROR"
    by code_simp
  moreover have "map_of userMessages DATA_TRANSFORMATION_ERROR = None"
    "map_of userMessages RALLY_SERVER_ERROR = None"
    by (simp_all add: userMessages_def)
  ultimately show ?thesis
    by (simp add: classify_Error_instance classify_flagged plain_error_sel flagged_object_sel
          processError_def processAxiosError_def axios_result_def requestMethod_def Let_def
          createUserFriendlyMessage_def json_of_string_def response_with_status_def
          string_of_int_500 mapping_500)
qed

text \<open>
  C3, amended.  Whenever a record is returned, its message is fixed by its category and
  the failure's own message.  For thirteen categories it is the template that
  \<^verbatim>\<open>userMessages\<close> has for the category.  For the category unexpected it is the sentence of
  \<^verbatim>\<open>processUnknownError\<close>, \<^verbatim>\<open>An unexpected error occurred\<close> with no full stop (the template
  that \<^verbatim>\<open>userMessages\<close> has for that category is never used); and the category is
  unexpected exactly when the failure is neither an \<^verbatim>\<open>Error\<close> instance nor flagged.  For
  every other category it is \<^verbatim>\<open>Error: \<close> followed by the failure's own message.  The body
  and the headers of the response never enter the message: replacing them leaves it as it
  was.
\<close>

theorem message_is_template_or_own_message:
  "map_sum id message (classify cfg fresh now st failure op given)
     = map_sum id
         (\<lambda>result. case map_of
                 [(AUTHENTICATION_ERROR, ''Authentication failed. Please check your Rally API key.''),
                  (API_KEY_INVALID, ''The provided Rally API key is invalid.''),
                  (API_KEY_EXPIRED, ''Your Rally API key has expired. Please renew it.''),
                  (PERMISSION_ERROR, ''You do not have permission to perform this operation.''),
                  (NOT_FOUND_ERROR, ''The requested resource was not found.''),
                  (VALIDATION_ERROR, ''The provided data is invalid.''),
                  (RALLY_SERVICE_UNAVAILABLE,
                     ''Rally service is temporarily unavailable. Please try again later.''),
                  (RALLY_RATE_LIMIT,
                     ''Rally API rate limit exceeded. Please wait before trying again.''),
                  (CONNECTION_TIMEOUT,
                     ''Connection timeout. Please check your network connection.''),
                  (NETWORK_ERROR, ''Network error occurred. Please check your connection.''),
                  (CIRCUIT_BREAKER_OPEN,
                     ''Service is temporarily unavailable due to repeated failures.''),
                  (CONFIGURATION_ERROR, ''Configuration error. Please check your settings.''),
                  (INTERNAL_ERROR, ''An internal error occurred. Please try again.''),
                  (UNEXPECTED_ERROR, ''An unexpected error occurred'')]
                 (type result) of
                 Some sentence \<Rightarrow> sentence
               | None \<Rightarrow> ''Error: '' @ own_message_text failure)
         (classify cfg fresh now st failure op given)
   \<and> map_sum id (\<lambda>result. type result = UNEXPECTED_ERROR) (classify cfg fresh now st failure op given)
     = map_sum id (\<lambda>result. unrecognised failure) (classify cfg fresh now st failure op given)
   \<and> map_sum id message
       (classify cfg fresh now st
          (ObjectValue (e\<lparr>response := Some (r\<lparr>data := body, headers := hs\<rparr>)\<rparr>)) op given)
     = map_sum id message
       (classify cfg fresh now st (ObjectValue (e\<lparr>response := Some r\<rparr>)) op given)"
proof (intro conjI)
  let ?sentence = "\<lambda>result. case map_of fixed_sentences (type result) of
                         Some sentence \<Rightarrow> sentence
                       | None \<Rightarrow> ''Error: '' @ own_message_text failure"
  have created: "message_text = (case map_of fixed_sentences t of
                                   Some sentence \<Rightarrow> sentence
                                 | None \<Rightarrow> ''Error: '' @ own_message_text (ObjectValue x))"
    if "createUserFriendlyMessage t (error_message x) = Inr message_text"
      and "t \<noteq> UNEXPECTED_ERROR" for t x message_text
    using that
    by (auto simp: createUserFriendlyMessage_def fixed_sentences_userMessages
          own_message_text_def split: option.splits sum.splits)
  have "map_sum id message (classify cfg fresh now st failure op given)
        = map_sum id ?sentence (classify cfg fresh now st failure op given)"
  proof (cases "unrecognised failure")
    case True
    then show ?thesis
      by (cases failure)
         (auto simp: classify_unrecognised processUnknownError_def fixed_sentences_unexpected
               split: sum.splits option.splits)
  next
    case False
    then obtain x where f: "failure = ObjectValue x" and x: "instanceofError x \<or> isAxiosError x"
      by (cases failure) (auto simp: unrecognised_def)
    show ?thesis
    proof (cases "instanceofError x")
      case True
      show ?thesis
      proof (cases "processError cfg st x (make_context cfg fresh now op given)")
        case (Inl err)
        with True f show ?thesis by (simp add: classify_Error_instance)
      next
        case (Inr rec)
        then obtain t message_text where "classifyError x = Inr t"
          and "createUserFriendlyMessage t (error_message x) = Inr message_text"
          and "type rec = t" and "message rec = message_text"
          by (auto simp: processError_def split: sum.splits)
        with created[of t x message_text] classifyError_not_unexpected[of x t] Inr True
        show ?thesis unfolding f by (simp add: classify_Error_instance)
      qed
    next
      case nE: False
      with x have ax: "isAxiosError x" by simp
      show ?thesis
      proof (cases "processAxiosError cfg st x (make_context cfg fresh now op given)")
        case (Inl err)
        with nE ax f show ?thesis by (simp add: classify_flagged)
      next
        case (Inr rec)
        then have "createUserFriendlyMessage (type rec) (error_message x) = Inr (message rec)"
          by (auto simp: processAxiosError_def axios_result_def Let_def
                split: option.splits sum.splits if_splits)
        with created[of "type rec" x "message rec"] processAxiosError_not_unexpected[OF Inr]
          Inr nE ax
        show ?thesis unfolding f by (simp add: classify_flagged)
      qed
    qed
  qed
  then show "map_sum id message (classify cfg fresh now st failure op given)
     = map_sum id
         (\<lambda>result. case map_of
                 [(AUTHENTICATION_ERROR, ''Authentication failed. Please check your Rally API key.''),
                  (API_KEY_INVALID, ''The provided Rally API key is invalid.''),
                  (API_KEY_EXPIRED, ''Your Rally API key has expired. Please renew it.''),
                  (PERMISSION_ERROR, ''You do not have permission to perform this operation.''),
                  (NOT_FOUND_ERROR, ''The requested resource was not found.''),
                  (VALIDATION_ERROR, ''The provided data is invalid.''),
                  (RALLY_SERVICE_UNAVAILABLE,
                     ''Rally service is temporarily unavailable. Please try again later.''),
                  (RALLY_RATE_LIMIT,
                     ''Rally API rate limit exceeded. Please wait before trying again.''),
                  (CONNECTION_TIMEOUT,
                     ''Connection timeout. Please check your network connection.''),
                  (NETWORK_ERROR, ''Network error occurred. Please check your connection.''),
                  (CIRCUIT_BREAKER_OPEN,
                     ''Service is temporarily unavailable due to repeated failures.''),
                  (CONFIGURATION_ERROR, ''Configuration error. Please check your settings.''),
                  (INTERNAL_ERROR, ''An internal error occurred. Please try again.''),
                  (UNEXPECTED_ERROR, ''An unexpected error occurred'')]
                 (type result) of
                 Some sentence \<Rightarrow> sentence
               | None \<Rightarrow> ''Error: '' @ own_message_text failure)
         (classify cfg fresh now st failure op given)"
    by (simp only: fixed_sentences_def)
next
  show "map_sum id (\<lambda>result. type result = UNEXPECTED_ERROR) (classify cfg fresh now st failure op given)
        = map_sum id (\<lambda>result. unrecognised failure) (classify cfg fresh now st failure op given)"
  proof (cases "unrecognised failure")
    case True
    then show ?thesis
      by (cases failure)
         (auto simp: classify_unrecognised processUnknownError_def
               split: sum.splits option.splits)
  next
    case False
    then obtain x where f: "failure = ObjectValue x" and x: "instanceofError x \<or> isAxiosError x"
      by (cases failure) (auto simp: unrecognised_def)
    show ?thesis
    proof (cases "instanceofError x")
      case True
      with f False processError_not_unexpected[of cfg st x "make_context cfg fresh now op given"]
      show ?thesis
        by (cases "processError cfg st x (make_context cfg fresh now op given)")
           (simp_all add: classify_Error_instance)
    next
      case nE: False
      with x have ax: "isAxiosError x" by simp
      with nE f False
        processAxiosError_not_unexpected[of cfg st x "make_context cfg fresh now op given"]
      show ?thesis
        by (cases "processAxiosError cfg st x (make_context cfg fresh now op given)")
           (simp_all add: classify_flagged)
    qed
  qed
next
  let ?a = "e\<lparr>response := Some (r\<lparr>data := body, headers := hs\<rparr>)\<rparr>"
  let ?b = "e\<lparr>response := Some r\<rparr>"
  show "map_sum id message (classify cfg fresh now st (ObjectValue ?a) op given)
        = map_sum id message (classify cfg fresh now st (ObjectValue ?b) op given)"
  proof (cases "instanceofError e")
    case True
    have "classifyError ?a = classifyError ?b"
      by (simp add: classifyError_def cong: json.case_cong)
    then show ?thesis using True
      by (simp add: classify_Error_instance processError_def split: sum.splits)
  next
    case False
    show ?thesis
    proof (cases "isAxiosError e")
      case True
      have "requestMethod ?a = requestMethod ?b" by (simp add: requestMethod_def)
      with False True show ?thesis
        by (simp add: classify_flagged processAxiosError_def axios_result_def Let_def
              split: option.splits sum.splits)
    next
      case False
      with \<open>\<not> instanceofError e\<close> show ?thesis
        by (simp add: classify_unrecognised unrecognised_def processUnknownError_def
              split: option.splits)
    qed
  qed
qed

text \<open>
  C5, as the code has it.  \<^verbatim>\<open>handleError\<close> has no handler of its own around the
  inspection.  A flagged object whose response has no status makes
  \<^verbatim>\<open>response.status.toString()\<close> raise; an object without a \<^verbatim>\<open>toString\<close> to call makes
  \<^verbatim>\<open>String(error)\<close> raise; an \<^verbatim>\<open>Error\<close> whose message is a number, or whose name is
  \<^verbatim>\<open>undefined\<close>, makes \<^verbatim>\<open>toLowerCase()\<close> raise; a flagged object whose request has a
  number for a method makes \<^verbatim>\<open>toUpperCase()\<close> raise; and a flagged object with a request
  and no response, whose message cannot be converted to a string, makes the test of the
  network patterns raise.
\<close>

theorem handler_raises_counterexample:
  "handleError sample_config ''c-1'' 0 initial_state
     (ObjectValue (flagged_object (Some response_without_status) None)) ''getStory'' None
   = Inl TypeError
   \<and> handleError sample_config ''c-1'' 0 initial_state
     (ObjectValue bare_object) ''getStory'' None
   = Inl TypeError
   \<and> handleError sample_config ''c-1'' 0 initial_state
     (ObjectValue error_with_numeric_message) ''getStory'' None
   = Inl TypeError
   \<and> handleError sample_config ''c-1'' 0 initial_state
     (ObjectValue error_without_name) ''getStory'' None
   = Inl TypeError
   \<and> handleError sample_config ''c-1'' 0 initial_state
     (ObjectValue flagged_with_numeric_method) ''getStory'' None
   = Inl TypeError
   \<and> handleError sample_config ''c-1'' 0 initial_state
     (ObjectValue flagged_with_opaque_message) ''getStory'' None
   = Inl TypeError"
proof (intro conjI)
  show "handleError sample_config ''c-1'' 0 initial_state
     (ObjectValue (flagged_object (Some response_without_status) None)) ''getStory'' None
   = Inl TypeError"
    by (simp add: handleError_def Let_def flagged_object_sel processAxiosError_def
          response_without_status_def)
  show "handleError sample_config ''c-1'' 0 initial_state
     (ObjectValue bare_object) ''getStory'' None
   = Inl TypeError"
    by (simp add: handleError_def Let_def processUnknownError_def bare_object_def)
  show "handleError sample_config ''c-1'' 0 initial_state
     (ObjectValue error_with_numeric_message) ''getStory'' None
   = Inl TypeError"
    by (simp add: handleError_def Let_def processError_def classifyError_def
          error_with_numeric_message_def plain_error_def)
  show "handleError sample_config ''c-1'' 0 initial_state
     (ObjectValue error_without_name) ''getStory'' None
   = Inl TypeError"
    by (simp add: handleError_def Let_def processError_def classifyError_def
          error_without_name_def plain_error_def)
  have "classify sample_config ''c-1'' 0 initial_state
          (ObjectValue flagged_with_numeric_method) ''getStory'' None = Inl TypeError"
    by (rule flagged_raises)
       (simp_all add: flagged_with_numeric_method_def flagged_object_def method_usable_def)
  then show "handleError sample_config ''c-1'' 0 initial_state
     (ObjectValue flagged_with_numeric_method) ''getStory'' None
   = Inl TypeError"
    by (rule handleError_raises)
  have "classifyNetworkError (JObj [(''toString'', JNull)]) = Inl TypeError"
    by (rule classifyNetworkError_raises) simp
  then show "handleError sample_config ''c-1'' 0 initial_state
     (ObjectValue flagged_with_opaque_message) ''getStory'' None
   = Inl TypeError"
    by (simp add: handleError_def Let_def processAxiosError_def
          flagged_with_opaque_message_def flagged_object_def)
qed

text \<open>
  C5, amended.  On every inspectable failure \<^verbatim>\<open>handleError\<close> returns a record (and the new
  state of the handler), and a value that is neither an \<^verbatim>\<open>Error\<close> instance nor flagged
  gets the category unexpected; on a malformed failure it raises a \<^verbatim>\<open>TypeError\<close>.
\<close>

theorem handler_returns_on_inspectable_failures:
  "(inspectable failure \<longrightarrow>
      (\<exists>r st'. handleError cfg fresh now st failure op given = Inr (r, st')
               \<and> (unrecognised failure \<longrightarrow> type r = UNEXPECTED_ERROR)))
   \<and> (malformed failure \<longrightarrow>
        handleError cfg fresh now st failure op given = Inl TypeError)"
proof (cases "unrecognised failure")
  case True
  have c: "classify cfg fresh now st failure op given
           = processUnknownError st failure (make_context cfg fresh now op given)"
    by (rule classify_unrecognised[OF True])
  have "\<exists>r. classify cfg fresh now st failure op given = Inr r \<and> type r = UNEXPECTED_ERROR"
    if "inspectable failure"
    using that c True
    by (cases failure) (auto simp: processUnknownError_def inspectable_def unrecognised_def)
  moreover have "classify cfg fresh now st failure op given = Inl TypeError"
    if "malformed failure"
    using that c True
    by (cases failure) (auto simp: processUnknownError_def malformed_def unrecognised_def)
  ultimately show ?thesis using handleError_classify handleError_raises by blast
next
  case False
  then obtain x where f: "failure = ObjectValue x" and x: "instanceofError x \<or> isAxiosError x"
    by (cases failure) (auto simp: unrecognised_def)
  let ?ctx = "make_context cfg fresh now op given"
  show ?thesis
  proof (cases "instanceofError x")
    case True
    then have c: "classify cfg fresh now st failure op given = processError cfg st x ?ctx"
      using f by (simp add: classify_Error_instance)
    have "\<exists>r. classify cfg fresh now st failure op given = Inr r" if "inspectable failure"
    proof -
      from that True f have s: "is_string (error_message x)" "is_string (error_name x)"
        by (simp_all add: inspectable_def)
      then obtain t where t: "classifyError x = Inr t" using classifyError_returns by blast
      from s(1) have "has_string_form (error_message x)" by (cases "error_message x") simp_all
      then obtain m where "createUserFriendlyMessage t (error_message x) = Inr m"
        using createUserFriendlyMessage_returns by blast
      with t c show ?thesis by (simp add: processError_def)
    qed
    moreover have "classify cfg fresh now st failure op given = Inl TypeError"
      if "malformed failure"
    proof -
      from that True f have "\<not> is_string (error_message x) \<or> \<not> is_string (error_name x)"
        by (simp add: malformed_def)
      then have "classifyError x = Inl TypeError" by (rule classifyError_raises)
      with c show ?thesis by (simp add: processError_def)
    qed
    ultimately show ?thesis using False handleError_classify handleError_raises by blast
  next
    case nE: False
    with x have ax: "isAxiosError x" by simp
    have c: "classify cfg fresh now st failure op given = processAxiosError cfg st x ?ctx"
      using f nE ax by (simp add: classify_flagged)
    have "\<exists>r. classify cfg fresh now st failure op given = Inr r" if "inspectable failure"
    proof -
      from that nE ax f have m: "method_usable x" and s: "has_string_form (error_message x)"
        and r: "case response x of None \<Rightarrow> True | Some r \<Rightarrow> status r \<noteq> None"
        by (simp_all add: inspectable_def)
      from classifyNetworkError_returns[OF s]
      obtain t where t: "classifyNetworkError (error_message x) = Inr t" by blast
      from axios_result_returns[OF m s] t r c show ?thesis
        by (auto simp: processAxiosError_def Let_def split: option.splits) metis+
    qed
    moreover have "classify cfg fresh now st failure op given = Inl TypeError"
      if "malformed failure"
    proof (cases "method_usable x")
      case False
      from flagged_raises[OF nE ax False] f show ?thesis by simp
    next
      case True
      with that nE ax f
      have "case response x of
              None \<Rightarrow> request x \<and> \<not> has_string_form (error_message x)
            | Some r \<Rightarrow> status r = None"
        by (simp add: malformed_def)
      with c classifyNetworkError_raises[of "error_message x"] show ?thesis
        by (auto simp: processAxiosError_def split: option.splits)
    qed
    ultimately show ?thesis using False handleError_classify handleError_raises by blast
  qed
qed

theorem handler_returns_on_inspectable_failures_witness:
  "inspectable (PrimitiveValue (PStr ''boom'')) \<and> unrecognised (PrimitiveValue (PStr ''boom''))
   \<and> map_sum id type
       (classify sample_config ''c-1'' 0 initial_state (PrimitiveValue (PStr ''boom''))
          ''getStory'' None) = Inr UNEXPECTED_ERROR
   \<and> inspectable (ObjectValue plain_object) \<and> unrecognised (ObjectValue plain_object)
   \<and> map_sum id type
       (classify sample_config ''c-1'' 0 initial_state (ObjectValue plain_object)
          ''getStory'' None) = Inr UNEXPECTED_ERROR
   \<and> inspectable (ObjectValue (plain_error ''RangeError'' ''out of range''))
   \<and> (\<exists>r st'. handleError sample_config ''c-1'' 0 initial_state
                 (ObjectValue (plain_error ''RangeError'' ''out of range'')) ''getStory'' None
               = Inr (r, st'))
   \<and> inspectable (ObjectValue flagged_not_found)
   \<and> (\<exists>r st'. handleError sample_config ''c-1'' 0 initial_state
                 (ObjectValue flagged_not_found) ''getStory'' None
               = Inr (r, st'))
   \<and> malformed (ObjectValue error_with_numeric_message)
   \<and> handleError sample_config ''c-1'' 0 initial_state
       (ObjectValue error_with_numeric_message) ''getStory'' None = Inl TypeError
   \<and> malformed (ObjectValue flagged_with_numeric_method)
   \<and> handleError sample_config ''c-1'' 0 initial_state
       (ObjectValue flagged_with_numeric_method) ''getStory'' None = Inl TypeError"
proof -
  have i1: "inspectable (PrimitiveValue (PStr ''boom''))" by (simp add: inspectable_def)
  have u1: "unrecognised (PrimitiveValue (PStr ''boom''))" by (simp add: unrecognised_def)
  have i2: "inspectable (ObjectValue plain_object)"
    by (simp add: inspectable_def plain_object_def bare_object_def)
  have u2: "unrecognised (ObjectValue plain_object)"
    by (simp add: unrecognised_def plain_object_def bare_object_def)
  have i3: "inspectable (ObjectValue (plain_error ''RangeError'' ''out of range''))"
    by (simp add: inspectable_def plain_error_def)
  have i4: "inspectable (ObjectValue flagged_not_found)"
    by (simp add: inspectable_def flagged_not_found_def flagged_object_def
          response_with_status_def method_usable_def json_of_string_def)
  have m1: "malformed (ObjectValue error_with_numeric_message)"
    by (simp add: malformed_def error_with_numeric_message_def plain_error_def)
  have m2: "malformed (ObjectValue flagged_with_numeric_method)"
    by (simp add: malformed_def flagged_with_numeric_method_def flagged_object_def
          response_with_status_def method_usable_def)
  from i1 u1 handler_returns_on_inspectable_failures[of "PrimitiveValue (PStr ''boom'')"
         sample_config "''c-1''" 0 initial_state "''getStory''" None]
  have r1: "map_sum id type
       (classify sample_config ''c-1'' 0 initial_state (PrimitiveValue (PStr ''boom''))
          ''getStory'' None) = Inr UNEXPECTED_ERROR"
    by (auto simp: classify_def)
  from i2 u2 handler_returns_on_inspectable_failures[of "ObjectValue plain_object"
         sample_config "''c-1''" 0 initial_state "''getStory''" None]
  have r2: "map_sum id type
       (classify sample_config ''c-1'' 0 initial_state (ObjectValue plain_object)
          ''getStory'' None) = Inr UNEXPECTED_ERROR"
    by (auto simp: classify_def)
  from i3 handler_returns_on_inspectable_failures[of
         "ObjectValue (plain_error ''RangeError'' ''out of range'')"
         sample_config "''c-1''" 0 initial_state "''getStory''" None]
  have r3: "\<exists>r st'. handleError sample_config ''c-1'' 0 initial_state
                 (ObjectValue (plain_error ''RangeError'' ''out of range'')) ''getStory'' None
               = Inr (r, st')"
    by blast
  from i4 handler_returns_on_inspectable_failures[of "ObjectValue flagged_not_found"
         sample_config "''c-1''" 0 initial_state "''getStory''" None]
  have r4: "\<exists>r st'. handleError sample_config ''c-1'' 0 initial_state
                 (ObjectValue flagged_not_found) ''getStory'' None
               = Inr (r, st')"
    by blast
  from m1 handler_returns_on_inspectable_failures[of "ObjectValue error_with_numeric_message"
         sample_config "''c-1''" 0 initial_state "''getStory''" None]
  have r5: "handleError sample_config ''c-1'' 0 initial_state
       (ObjectValue error_with_numeric_message) ''getStory'' None = Inl TypeError"
    by blast
  from m2 handler_returns_on_inspectable_failures[of "ObjectValue flagged_with_numeric_method"
         sample_config "''c-1''" 0 initial_state "''getStory''" None]
  have r6: "handleError sample_config ''c-1'' 0 initial_state
       (ObjectValue flagged_with_numeric_method) ''getStory'' None = Inl TypeError"
    by blast
  from i1 u1 r1 i2 u2 r2 i3 r3 i4 r4 m1 r5 m2 r6 show ?thesis by blast
qed

end
